(* ===== verification/Anchora_Prelude.thy ===== *)
theory Anchora_Prelude
  imports Main "HOL-Library.AList" "HOL-Library.Multiset" "HOL-Library.Char_ord"
    "HOL-Library.List_Lexorder"
begin

text \<open>
  Shared vocabulary of the development: Go's 64-bit integers, Go error values and
  \<open>errors.Is\<close>, Go maps as association lists whose iteration order is not specified, and
  the generic facts on lists, association lists and multisets the components share.

  Strings are lists of characters and stand for Go strings, which are sequences of bytes.
  The order on strings is the lexicographic order of the library (List_Lexorder over
  Char_ord), which is Go's byte-wise order of strings.
\<close>

named_theorems go_simps \<open>unfolding rules for the Go vocabulary\<close>

section \<open>64-bit integers\<close>

text \<open>
  Go's \<open>int\<close> and \<open>time.Duration\<close> are 64-bit two's complement integers. They are
  modelled as \<open>int\<close>; where an operation can overflow the wrap-around is written out.
\<close>

definition wrap64 :: "int \<Rightarrow> int" where
  "wrap64 x = (x + 2 ^ 63) mod 2 ^ 64 - 2 ^ 63"

definition in_int64 :: "int \<Rightarrow> bool" where
  "in_int64 x \<longleftrightarrow> - (2 ^ 63) \<le> x \<and> x < 2 ^ 63"

lemma wrap64_range: "in_int64 (wrap64 x)"
  by (simp add: wrap64_def in_int64_def)

lemma wrap64_id: "in_int64 x \<Longrightarrow> wrap64 x = x"
  by (simp add: wrap64_def in_int64_def)

lemma wrap64_dvd: "k dvd 2 ^ 63 \<Longrightarrow> k dvd x \<Longrightarrow> k dvd wrap64 x" for k :: int
proof -
  assume k: "k dvd 2 ^ 63" and x: "k dvd x"
  have "(2::int) ^ 64 = 2 ^ 63 * 2" by simp
  with k have k64: "k dvd (2::int) ^ 64" by (metis dvd_mult2)
  from k x have "k dvd x + 2 ^ 63" by simp
  with k64 have "k dvd (x + 2 ^ 63) mod 2 ^ 64" by (rule dvd_mod [rotated])
  with k show ?thesis unfolding wrap64_def by (rule dvd_diff [rotated])
qed

section \<open>Error values\<close>

text \<open>
  A Go error is made by \<open>errors.New\<close> or \<open>fmt.Errorf\<close> without \<open>%w\<close> (\<open>Errorf\<close>), is a
  package-level sentinel compared by identity (\<open>Sentinel\<close>), or wraps another error with
  \<open>%w\<close> (\<open>Wrapf\<close>, which carries the whole rendered text). \<open>errors.Is\<close> walks the chain of
  wrapped errors and compares with the sentinel.
\<close>

datatype gerror =
    Errorf string
  | Sentinel string
  | Wrapf string gerror

primrec error_text :: "gerror \<Rightarrow> string" where
  "error_text (Errorf s) = s"
| "error_text (Sentinel s) = s"
| "error_text (Wrapf s e) = s"

primrec errors_is :: "gerror \<Rightarrow> gerror \<Rightarrow> bool" where
  "errors_is (Errorf s) t = False"
| "errors_is (Sentinel s) t = (t = Sentinel s)"
| "errors_is (Wrapf s e) t = errors_is e t"

text \<open>
  The verb \<open>%q\<close> (\<open>strconv.Quote\<close>): quotes and backslashes are escaped, control characters
  are written with their escape letter or as \<open>\xNN\<close>. Bytes from 0x80 on are copied, which is
  what Go does for printable characters in valid UTF-8.
\<close>

definition hex_digit :: "nat \<Rightarrow> char" where
  "hex_digit n = ''0123456789abcdef'' ! n"

definition quote_char :: "char \<Rightarrow> string" where
  "quote_char c =
     (if c = CHR 0x22 then [CHR 0x5C, CHR 0x22] else if c = CHR 0x5C then [CHR 0x5C, CHR 0x5C]
      else if c = CHR 0x07 then [CHR 0x5C, CHR ''a''] else if c = CHR 0x08 then [CHR 0x5C, CHR ''b'']
      else if c = CHR 0x0C then [CHR 0x5C, CHR ''f''] else if c = CHR 0x0A then [CHR 0x5C, CHR ''n'']
      else if c = CHR 0x0D then [CHR 0x5C, CHR ''r''] else if c = CHR 0x09 then [CHR 0x5C, CHR ''t'']
      else if c = CHR 0x0B then [CHR 0x5C, CHR ''v'']
      else if of_char c < (32::nat) \<or> c = CHR 0x7F
      then [CHR 0x5C, CHR ''x'', hex_digit (of_char c div 16), hex_digit (of_char c mod 16)]
      else [c])"

definition go_quote :: "string \<Rightarrow> string" where
  "go_quote s = [CHR 0x22] @ concat (map quote_char s) @ [CHR 0x22]"

text \<open>\<open>strconv.Itoa\<close> and the verb \<open>%d\<close>.\<close>

fun decimal :: "nat \<Rightarrow> string" where
  "decimal n = (if n < 10 then [hex_digit n] else decimal (n div 10) @ [hex_digit (n mod 10)])"

declare decimal.simps [simp del]

definition itoa :: "int \<Rightarrow> string" where
  "itoa i = (if i < 0 then ''-'' @ decimal (nat (- i)) else decimal (nat i))"

section \<open>Go maps and their iteration order\<close>

text \<open>
  A Go map that is ranged over is an association list (\<open>AList.update\<close>,
  \<open>AList.delete\<close>, \<open>map_of\<close>), a Go map that is only looked up is a partial function.
  Go does not specify the order in which \<open>range\<close> visits a map. The order is an argument
  \<open>ord\<close> of the definitions that range over one: \<open>range_order ord ks\<close> are the keys \<open>ks\<close>
  in the order \<open>ord\<close> picks. An \<open>ord\<close> that does not pick a permutation stands for the order
  of the list, so that every theorem holds for every \<open>ord\<close>.
\<close>

definition range_order :: "('k list \<Rightarrow> 'k list) \<Rightarrow> 'k list \<Rightarrow> 'k list" where
  "range_order ord ks = (if mset (ord ks) = mset ks then ord ks else ks)"

lemma mset_range_order [simp]: "mset (range_order ord ks) = mset ks"
  by (simp add: range_order_def)

lemma set_range_order [simp]: "set (range_order ord ks) = set ks"
  by (metis mset_range_order set_mset_mset)

lemma length_range_order [simp]: "length (range_order ord ks) = length ks"
  by (metis mset_range_order size_mset)

lemma distinct_range_order [simp]: "distinct (range_order ord ks) = distinct ks"
  by (metis mset_range_order mset_eq_imp_distinct_iff)

text \<open>Distinct keys, the invariant of an association list that stands for a Go map.\<close>

abbreviation distinct_keys :: "('k \<times> 'v) list \<Rightarrow> bool" where
  "distinct_keys al \<equiv> distinct (map fst al)"

lemma distinct_keys_update [simp]: "distinct_keys al \<Longrightarrow> distinct_keys (AList.update k v al)"
  by (rule AList.distinct_update)

lemma distinct_keys_delete [simp]: "distinct_keys al \<Longrightarrow> distinct_keys (AList.delete k al)"
  by (rule AList.distinct_delete)

lemma map_of_update [simp]: "map_of (AList.update k v al) = (map_of al)(k \<mapsto> v)"
  by (rule AList.update_conv')

lemma map_of_delete [simp]: "map_of (AList.delete k al) = (map_of al)(k := None)"
  by (rule AList.delete_conv')

lemma keys_delete: "set (map fst (AList.delete k al)) = set (map fst al) - {k}"
  by (auto simp: AList.delete_eq)

lemma length_delete_less: "map_of al k = Some v \<Longrightarrow> length (AList.delete k al) < length al"
proof -
  assume "map_of al k = Some v"
  then have "(k, v) \<in> set al" by (rule map_of_SomeD)
  then show ?thesis
    unfolding AList.delete_eq by (intro length_filter_less) auto
qed

lemma length_delete_le: "length (AList.delete k al) \<le> length al"
  by (rule AList.length_delete_le)

lemma map_of_SomeD_key: "map_of al k = Some v \<Longrightarrow> k \<in> set (map fst al)"
  by (force dest: map_of_SomeD)

end
