(* ===== verification/Workflow_Graph.thy ===== *)
theory Workflow_Graph
  imports Anchora_Prelude
begin

text \<open>
  The data of the workflow engine and the validation of a workflow
  (\<^verbatim>\<open>internal/workflow/workflow.go\<close>): \<open>Status\<close>, \<open>Step\<close>, \<open>StepResult\<close>, \<open>Options\<close>,
  \<open>NewWorkflow\<close> with every rejection it can return, and \<open>hasCycle\<close>, Kahn's algorithm over
  the \<open>DependsOn\<close> edges.

  An agent is any value of the type \<open>'ag\<close>; the interface value \<open>nil\<close> is \<open>None\<close>.
\<close>

section \<open>Data\<close>

datatype status = Pending | Running | Succeeded | Failed | Retrying | Skipped

record 'ag step =
  step_ID :: string
  step_Agent :: "'ag option"
  step_Prompt :: string
  step_DependsOn :: "string list"

record step_result =
  result_ID :: string
  result_Status :: status
  result_Attempts :: int
  result_Output :: string
  result_Error :: string

text \<open>
  \<open>Options.OnStepState\<close> is a callback; it is a parameter of the run (theory Workflow_Run).
\<close>

record options =
  MaxRetries :: int
  RetryDelay :: int
  Resume :: "step_result list"

record 'ag workflow =
  wf_steps :: "'ag step list"
  wf_options :: options

text \<open>One constructor per rejection of \<open>NewWorkflow\<close>, with what the message names.\<close>

datatype graph_error =
    NegativeOptions
  | NoSteps
  | MissingField
  | DuplicateStep string
  | InvalidDependency string
  | UnknownDependency string string
  | DuplicateDependency string string
  | DependencyCycle

section \<open>hasCycle\<close>

text \<open>
  The first loop of \<open>hasCycle\<close> counts the dependencies of each step and collects the
  children of each dependency. Reading a key that is not in a Go map gives the zero value.
\<close>

definition count_of :: "(string \<times> int) list \<Rightarrow> string \<Rightarrow> int" where
  "count_of ds k = (case map_of ds k of None \<Rightarrow> 0 | Some n \<Rightarrow> n)"

definition children_of :: "(string \<rightharpoonup> string list) \<Rightarrow> string \<Rightarrow> string list" where
  "children_of ch k = (case ch k of None \<Rightarrow> [] | Some cs \<Rightarrow> cs)"

fun add_children :: "string \<Rightarrow> string list \<Rightarrow> (string \<rightharpoonup> string list) \<Rightarrow> (string \<rightharpoonup> string list)" where
  "add_children sid [] ch = ch"
| "add_children sid (dep # deps) ch =
     add_children sid deps (ch(dep \<mapsto> children_of ch dep @ [sid]))"

fun index_steps ::
  "'ag step list \<Rightarrow> (string \<times> int) list \<Rightarrow> (string \<rightharpoonup> string list)
   \<Rightarrow> (string \<times> int) list \<times> (string \<rightharpoonup> string list)" where
  "index_steps [] ds ch = (ds, ch)"
| "index_steps (s # ss) ds ch =
     index_steps ss (AList.update (step_ID s) (int (length (step_DependsOn s))) ds)
       (add_children (step_ID s) (step_DependsOn s) ch)"

text \<open>The body of the main loop: every child of the visited step loses one dependency.\<close>

fun relax_children ::
  "string list \<Rightarrow> (string \<times> int) list \<Rightarrow> string list \<Rightarrow> (string \<times> int) list \<times> string list" where
  "relax_children [] ds ready = (ds, ready)"
| "relax_children (child # cs) ds ready =
     (let n = count_of ds child - 1
      in relax_children cs (AList.update child n ds) (if n = 0 then ready @ [child] else ready))"

text \<open>
  The main loop. A step is appended to \<open>ready\<close> only when its count falls from 1 to 0, so
  the number of positive counts plus the length of \<open>ready\<close> falls with every visit: the loop
  ends on every graph, valid or not.
\<close>

definition positive_keys :: "(string \<times> int) list \<Rightarrow> string set" where
  "positive_keys ds = {k. 0 < count_of ds k}"

lemma finite_positive_keys [simp]: "finite (positive_keys ds)"
proof (rule finite_subset)
  show "positive_keys ds \<subseteq> dom (map_of ds)"
    by (auto simp: positive_keys_def count_of_def split: option.splits)
qed (rule finite_dom_map_of)

lemma count_of_update [simp]:
  "count_of (AList.update k n ds) j = (if j = k then n else count_of ds j)"
  by (simp add: count_of_def)

lemma relax_children_measure:
  "relax_children cs ds ready = (ds', ready') \<Longrightarrow>
   length ready' + card (positive_keys ds') \<le> length ready + card (positive_keys ds)"
proof (induction cs ds ready rule: relax_children.induct)
  case (2 child cs ds ready)
  define n where "n = count_of ds child - 1"
  define ds1 where "ds1 = AList.update child n ds"
  have keys: "positive_keys ds1 = (if 0 < n then positive_keys ds else positive_keys ds - {child})"
    by (auto simp: positive_keys_def ds1_def n_def)
  have "card (positive_keys ds1) + (if n = 0 then 1 else 0) \<le> card (positive_keys ds)"
  proof (cases "n = 0")
    case True
    then have "child \<in> positive_keys ds" by (simp add: positive_keys_def n_def)
    then have "0 < card (positive_keys ds)" by (auto simp: card_gt_0_iff)
    with True \<open>child \<in> positive_keys ds\<close> keys show ?thesis by simp
  qed (simp add: keys card_Diff_subset_Int card_mono)
  with "2.IH"[of n] "2.prems" show ?case
    by (force simp: Let_def n_def ds1_def split: if_splits)
qed simp

function kahn_loop ::
  "(string \<rightharpoonup> string list) \<Rightarrow> (string \<times> int) list \<Rightarrow> string list \<Rightarrow> nat \<Rightarrow> nat" where
  "kahn_loop ch ds [] visited = visited"
| "kahn_loop ch ds (sid # ready) visited =
     (let (ds', ready') = relax_children (children_of ch sid) ds ready
      in kahn_loop ch ds' ready' (Suc visited))"
  by pat_completeness auto
termination
proof (relation "measure (\<lambda>(ch, ds, ready, visited). length ready + card (positive_keys ds))")
  fix ch ds sid ready and visited :: nat and x :: "(string \<times> int) list \<times> string list" and ds' ready'
  assume "x = relax_children (children_of ch sid) ds ready" and "(ds', ready') = x"
  then have "length ready' + card (positive_keys ds') \<le> length ready + card (positive_keys ds)"
    by (metis relax_children_measure)
  then show "((ch, ds', ready', Suc visited), ch, ds, sid # ready, visited)
    \<in> measure (\<lambda>(ch, ds, ready, visited). length ready + card (positive_keys ds))"
    by simp
qed simp

definition hasCycle :: "(string list \<Rightarrow> string list) \<Rightarrow> 'ag step list \<Rightarrow> bool" where
  "hasCycle ord steps =
     (let (ds, ch) = index_steps steps [] Map.empty;
          ready = filter (\<lambda>k. count_of ds k = 0) (range_order ord (map fst ds))
      in kahn_loop ch ds ready 0 \<noteq> length steps)"

section \<open>NewWorkflow\<close>

text \<open>
  The checks in the order of the source. \<open>seen\<close> is the set of step IDs collected by the
  first loop; the second loop keeps a fresh set of dependencies for each step.
\<close>

fun check_steps :: "'ag step list \<Rightarrow> string set \<Rightarrow> graph_error + string set" where
  "check_steps [] seen = Inr seen"
| "check_steps (s # ss) seen =
     (if step_ID s = [] \<or> step_Prompt s = [] \<or> step_Agent s = None then Inl MissingField
      else if step_ID s \<in> seen then Inl (DuplicateStep (step_ID s))
      else check_steps ss (insert (step_ID s) seen))"

fun check_dependencies ::
  "string \<Rightarrow> string set \<Rightarrow> string list \<Rightarrow> string set \<Rightarrow> graph_error + unit" where
  "check_dependencies sid seen [] deps = Inr ()"
| "check_dependencies sid seen (d # ds) deps =
     (if d = [] \<or> d = sid then Inl (InvalidDependency sid)
      else if d \<notin> seen then Inl (UnknownDependency sid d)
      else if d \<in> deps then Inl (DuplicateDependency sid d)
      else check_dependencies sid seen ds (insert d deps))"

fun check_edges :: "'ag step list \<Rightarrow> string set \<Rightarrow> graph_error + unit" where
  "check_edges [] seen = Inr ()"
| "check_edges (s # ss) seen =
     (case check_dependencies (step_ID s) seen (step_DependsOn s) {} of
        Inl e \<Rightarrow> Inl e
      | Inr _ \<Rightarrow> check_edges ss seen)"

definition NewWorkflow ::
  "(string list \<Rightarrow> string list) \<Rightarrow> 'ag step list \<Rightarrow> options \<Rightarrow> graph_error + 'ag workflow" where
  "NewWorkflow ord steps opts =
     (if MaxRetries opts < 0 \<or> RetryDelay opts < 0 then Inl NegativeOptions
      else if steps = [] then Inl NoSteps
      else case check_steps steps {} of
        Inl e \<Rightarrow> Inl e
      | Inr seen \<Rightarrow>
          (case check_edges steps seen of
             Inl e \<Rightarrow> Inl e
           | Inr _ \<Rightarrow>
               if hasCycle ord steps then Inl DependencyCycle
               else Inr \<lparr>wf_steps = steps, wf_options = opts\<rparr>))"

section \<open>What a valid workflow is\<close>

definition step_ids :: "'ag step list \<Rightarrow> string set" where
  "step_ids steps = step_ID ` set steps"

definition dep_edges :: "'ag step list \<Rightarrow> (string \<times> string) set" where
  "dep_edges steps = {(d, step_ID s) | s d. s \<in> set steps \<and> d \<in> set (step_DependsOn s)}"

definition closed_graph :: "'ag step list \<Rightarrow> bool" where
  "closed_graph steps \<longleftrightarrow> distinct (map step_ID steps) \<and>
     (\<forall>s\<in>set steps. distinct (step_DependsOn s) \<and> set (step_DependsOn s) \<subseteq> step_ids steps)"

definition valid_steps :: "'ag step list \<Rightarrow> bool" where
  "valid_steps steps \<longleftrightarrow> steps \<noteq> [] \<and> closed_graph steps \<and> acyclic (dep_edges steps) \<and>
     (\<forall>s\<in>set steps. step_ID s \<noteq> [] \<and> step_Prompt s \<noteq> [] \<and> step_Agent s \<noteq> None)"

lemma finite_dep_edges [simp]: "finite (dep_edges steps)"
proof -
  have "dep_edges steps = (\<Union>s\<in>set steps. (\<lambda>d. (d, step_ID s)) ` set (step_DependsOn s))"
    by (auto simp: dep_edges_def)
  then show ?thesis by simp
qed

lemma step_ids_finite [simp]: "finite (step_ids steps)"
  by (simp add: step_ids_def)

lemma acyclic_by_rank:
  fixes f :: "'a \<Rightarrow> nat"
  assumes "\<And>a b. (a, b) \<in> r \<Longrightarrow> f a < f b"
  shows "acyclic r"
proof (rule wf_acyclic)
  have "r \<subseteq> measure f" using assms by auto
  then show "wf r" by (rule wf_subset [OF wf_measure])
qed

section \<open>Kahn's algorithm decides acyclicity\<close>

definition children_spec :: "'ag step list \<Rightarrow> string \<Rightarrow> string list" where
  "children_spec steps d = map step_ID (filter (\<lambda>s. d \<in> set (step_DependsOn s)) steps)"

lemma add_children_spec:
  "distinct deps \<Longrightarrow>
   children_of (add_children sid deps ch) d = children_of ch d @ (if d \<in> set deps then [sid] else [])"
  by (induction sid deps ch rule: add_children.induct) (auto simp: children_of_def)

lemma index_steps_spec:
  "index_steps ss ds ch = (ds', ch') \<Longrightarrow> distinct (map step_ID ss) \<Longrightarrow>
   (\<forall>s\<in>set ss. distinct (step_DependsOn s)) \<Longrightarrow>
   (\<forall>s\<in>set ss. count_of ds' (step_ID s) = int (length (step_DependsOn s))) \<and>
   (\<forall>k. k \<notin> step_ID ` set ss \<longrightarrow> map_of ds' k = map_of ds k) \<and>
   children_of ch' d = children_of ch d @ children_spec ss d"
proof (induction ss ds ch rule: index_steps.induct)
  case (2 s ss ds ch)
  have "map_of ds' (step_ID s) = Some (int (length (step_DependsOn s)))"
    using "2.IH" "2.prems" by (auto simp: image_iff)
  with "2.IH" "2.prems" show ?case
    by (auto simp: children_spec_def add_children_spec count_of_def)
qed (simp add: children_spec_def)

lemma keys_update_new:
  "k \<notin> set (map fst al) \<Longrightarrow> map fst (AList.update k v al) = map fst al @ [k]"
  by (induction al) auto

lemma index_steps_keys:
  "index_steps ss ds ch = (ds', ch') \<Longrightarrow> distinct (map step_ID ss) \<Longrightarrow>
   step_ID ` set ss \<inter> set (map fst ds) = {} \<Longrightarrow> map fst ds' = map fst ds @ map step_ID ss"
proof (induction ss ds ch rule: index_steps.induct)
  case (2 s ss ds ch)
  then have new: "map fst (AList.update (step_ID s) (int (length (step_DependsOn s))) ds)
      = map fst ds @ [step_ID s]"
    by (intro keys_update_new) auto
  from "2.IH" "2.prems" new show ?case
    by (force simp flip: set_map)
qed simp

lemma relax_children_spec:
  "relax_children cs ds ready = (ds', ready') \<Longrightarrow> distinct cs \<Longrightarrow>
   (\<forall>k. count_of ds' k = count_of ds k - (if k \<in> set cs then 1 else 0)) \<and>
   ready' = ready @ filter (\<lambda>c. count_of ds c = 1) cs"
proof (induction cs ds ready rule: relax_children.induct)
  case (2 c cs ds ready)
  have "filter (\<lambda>k. count_of (AList.update c (count_of ds c - 1) ds) k = 1) cs
      = filter (\<lambda>k. count_of ds k = 1) cs"
    using "2.prems"(2) by (intro filter_cong) auto
  with 2 show ?case by (auto simp: Let_def)
qed simp

text \<open>
  The invariant of the main loop, over the ghost list \<open>V\<close> of visited steps: the counts are
  the numbers of unvisited dependencies, \<open>V\<close> and \<open>ready\<close> hold exactly the steps whose
  dependencies are all visited, and \<open>V\<close> is a topological order.
\<close>

definition topological :: "'ag step list \<Rightarrow> string list \<Rightarrow> bool" where
  "topological steps V \<longleftrightarrow>
     (\<forall>i<length V. \<forall>s\<in>set steps. step_ID s = V ! i \<longrightarrow> set (step_DependsOn s) \<subseteq> set (take i V))"

definition kahn_inv :: "'ag step list \<Rightarrow> string list \<Rightarrow> (string \<times> int) list \<Rightarrow> string list \<Rightarrow> bool" where
  "kahn_inv steps V ds ready \<longleftrightarrow>
     distinct (V @ ready) \<and> set (V @ ready) \<subseteq> step_ids steps \<and> topological steps V \<and>
     (\<forall>s\<in>set steps. count_of ds (step_ID s) = int (card (set (step_DependsOn s) - set V))) \<and>
     (\<forall>s\<in>set steps. step_ID s \<in> set (V @ ready) \<longleftrightarrow> set (step_DependsOn s) \<subseteq> set V)"

lemma topological_snoc:
  "topological steps V \<Longrightarrow>
   (\<And>s. s \<in> set steps \<Longrightarrow> step_ID s = x \<Longrightarrow> set (step_DependsOn s) \<subseteq> set V) \<Longrightarrow>
   topological steps (V @ [x])"
  unfolding topological_def by (auto simp: nth_append less_Suc_eq split: if_splits)

lemma card_diff_one:
  "finite A \<Longrightarrow> x \<notin> V \<Longrightarrow> int (card (A - insert x V)) = int (card (A - V)) - (if x \<in> A then 1 else 0)"
proof -
  assume A: "finite A" and x: "x \<notin> V"
  have eq: "A - insert x V = (A - V) - {x}" by auto
  show ?thesis
  proof (cases "x \<in> A")
    case True
    with A x have "card (A - V) = Suc (card ((A - V) - {x}))"
      by (intro card.remove) auto
    with True eq show ?thesis by simp
  qed (simp add: eq)
qed

lemma last_one_left: "x \<in> A \<Longrightarrow> x \<notin> V \<Longrightarrow> card (A - V) = Suc 0 \<longleftrightarrow> A \<subseteq> insert x V"
proof
  assume x: "x \<in> A" "x \<notin> V" and "card (A - V) = Suc 0"
  then obtain y where y: "A - V = {y}" by (auto simp: card_Suc_eq)
  then have "x = y" using x by blast
  with y show "A \<subseteq> insert x V" by auto
next
  assume "x \<in> A" "x \<notin> V" "A \<subseteq> insert x V"
  then have "A - V = {x}" by blast
  then show "card (A - V) = Suc 0" by simp
qed

lemma set_children_spec: "set (children_spec steps x) = {step_ID s | s. s \<in> set steps \<and> x \<in> set (step_DependsOn s)}"
  by (auto simp: children_spec_def)

lemma kahn_inv_step:
  assumes inv: "kahn_inv steps V ds (x # ready)"
    and closed: "closed_graph steps"
    and relax: "relax_children (children_spec steps x) ds ready = (ds', ready')"
  shows "kahn_inv steps (V @ [x]) ds' ready'"
proof -
  have inj: "step_ID s = step_ID t \<Longrightarrow> s = t" if "s \<in> set steps" "t \<in> set steps" for s t
    using closed that unfolding closed_graph_def by (meson distinct_map inj_onD)
  have dist: "distinct (children_spec steps x)"
    using closed by (simp add: closed_graph_def children_spec_def distinct_map_filter)
  from relax_children_spec [OF relax dist]
  have cnt: "\<And>k. count_of ds' k = count_of ds k - (if k \<in> set (children_spec steps x) then 1 else 0)"
    and rdy: "ready' = ready @ filter (\<lambda>c. count_of ds c = 1) (children_spec steps x)"
    by auto
  have child: "step_ID s \<in> set (children_spec steps x) \<longleftrightarrow> x \<in> set (step_DependsOn s)"
    if "s \<in> set steps" for s
    using that by (auto simp: set_children_spec dest: inj)
  have xV: "x \<notin> set V" using inv by (auto simp: kahn_inv_def)
  have count: "count_of ds (step_ID s) = int (card (set (step_DependsOn s) - set V))"
    if "s \<in> set steps" for s using inv that by (simp add: kahn_inv_def)
  have count': "count_of ds' (step_ID s) = int (card (set (step_DependsOn s) - set (V @ [x])))"
    if "s \<in> set steps" for s
    using card_diff_one [of "set (step_DependsOn s)" x "set V"] xV cnt child count that by simp
  have member: "step_ID s \<in> set (V @ x # ready) \<longleftrightarrow> set (step_DependsOn s) \<subseteq> set V"
    if "s \<in> set steps" for s using inv that by (simp add: kahn_inv_def)
  have fresh: "step_ID s \<notin> set (V @ x # ready)"
    if "s \<in> set steps" "x \<in> set (step_DependsOn s)" for s
    using member [OF that(1)] that(2) xV by blast
  have released: "count_of ds (step_ID s) = 1 \<longleftrightarrow> set (step_DependsOn s) \<subseteq> set (V @ [x])"
    if "s \<in> set steps" "x \<in> set (step_DependsOn s)" for s
    using last_one_left [of x "set (step_DependsOn s)" "set V"] xV count that by simp
  have disj: "set (V @ x # ready) \<inter> set (children_spec steps x) = {}"
    using fresh by (auto simp: set_children_spec)
  have "distinct (V @ [x] @ ready')"
    using inv dist disj by (auto simp: kahn_inv_def rdy)
  moreover have "set (V @ [x] @ ready') \<subseteq> step_ids steps"
    using inv by (auto simp: kahn_inv_def rdy set_children_spec step_ids_def)
  moreover have "topological steps (V @ [x])"
    using inv member by (intro topological_snoc) (auto simp: kahn_inv_def)
  moreover have "step_ID s \<in> set (V @ [x] @ ready') \<longleftrightarrow> set (step_DependsOn s) \<subseteq> set (V @ [x])"
    if "s \<in> set steps" for s
  proof (cases "x \<in> set (step_DependsOn s)")
    case True
    with that fresh released child show ?thesis by (auto simp: rdy)
  next
    case False
    then have "set (step_DependsOn s) \<subseteq> set (V @ [x]) \<longleftrightarrow> set (step_DependsOn s) \<subseteq> set V" by auto
    with False that member child show ?thesis by (auto simp: rdy)
  qed
  ultimately show ?thesis using count' by (simp add: kahn_inv_def)
qed

text \<open>The loop returns the length of a list that satisfies the invariant with nothing ready.\<close>

lemma kahn_loop_result:
  "kahn_inv steps V ds ready \<Longrightarrow> closed_graph steps \<Longrightarrow> visited = length V \<Longrightarrow>
   (\<And>d. children_of ch d = children_spec steps d) \<Longrightarrow>
   \<exists>V' ds'. kahn_loop ch ds ready visited = length V' \<and> kahn_inv steps V' ds' []"
proof (induction ch ds ready visited arbitrary: V rule: kahn_loop.induct)
  case (1 ch ds visited)
  then show ?case by auto
next
  case (2 ch ds x ready visited)
  obtain ds' ready' where relax: "relax_children (children_of ch x) ds ready = (ds', ready')"
    by fastforce
  with "2.prems" have "kahn_inv steps (V @ [x]) ds' ready'"
    by (auto intro: kahn_inv_step)
  from "2.IH" [OF relax [symmetric] refl this] "2.prems" relax show ?case by simp
qed

lemma kahn_inv_complete:
  assumes inv: "kahn_inv steps V ds []" and closed: "closed_graph steps"
  shows "length V = length steps \<longleftrightarrow> acyclic (dep_edges steps)"
proof
  have sub: "set V \<subseteq> step_ids steps" and dist: "distinct V"
    using inv by (auto simp: kahn_inv_def)
  have len: "length steps = card (step_ids steps)"
    using closed by (metis closed_graph_def distinct_card length_map set_map step_ids_def)
  {
    assume "length V = length steps"
    then have "set V = step_ids steps"
      using sub dist len by (simp add: card_subset_eq distinct_card)
    define f where "f x = (LEAST i. i < length V \<and> V ! i = x)" for x
    have f: "f x < length V \<and> V ! f x = x" if "x \<in> set V" for x
      unfolding f_def by (rule LeastI_ex) (use that in \<open>auto simp: in_set_conv_nth\<close>)
    have f_le: "f (V ! i) \<le> i" if "i < length V" for i
      unfolding f_def by (rule Least_le) (use that in auto)
    show "acyclic (dep_edges steps)"
    proof (rule acyclic_by_rank [of _ f])
      fix a b assume "(a, b) \<in> dep_edges steps"
      then obtain s where s: "s \<in> set steps" "b = step_ID s" "a \<in> set (step_DependsOn s)"
        by (auto simp: dep_edges_def)
      then have "b \<in> set V" using \<open>set V = _\<close> by (auto simp: step_ids_def)
      with f have fb: "f b < length V" "V ! f b = b" by auto
      with inv s have "a \<in> set (take (f b) V)"
        unfolding kahn_inv_def topological_def by fastforce
      then obtain i where "i < f b" "V ! i = a" by (auto simp: in_set_conv_nth)
      with f_le [of i] fb show "f a < f b" by auto
    qed
  next
    assume "acyclic (dep_edges steps)"
    then have wf: "wf (dep_edges steps)" by (simp add: finite_acyclic_wf)
    have "step_ids steps \<subseteq> set V"
    proof
      fix x assume "x \<in> step_ids steps"
      with wf show "x \<in> set V"
      proof (induction x rule: wf_induct_rule)
        case (less x)
        then obtain s where s: "s \<in> set steps" "step_ID s = x" by (auto simp: step_ids_def)
        have "set (step_DependsOn s) \<subseteq> set V"
          using less.IH s closed by (force simp: closed_graph_def dep_edges_def)
        with inv s show ?case by (auto simp: kahn_inv_def)
      qed
    qed
    with sub dist len show "length V = length steps"
      by (metis distinct_card subset_antisym)
  }
qed

lemma hasCycle_closed:
  assumes closed: "closed_graph steps"
  shows "hasCycle ord steps \<longleftrightarrow> \<not> acyclic (dep_edges steps)"
proof -
  obtain ds ch where idx: "index_steps steps [] Map.empty = (ds, ch)" by fastforce
  define ready where "ready = filter (\<lambda>k. count_of ds k = 0) (range_order ord (map fst ds))"
  from idx closed have keys: "map fst ds = map step_ID steps"
    by (auto simp: closed_graph_def dest: index_steps_keys)
  from index_steps_spec [OF idx] closed
  have cnt: "\<forall>s\<in>set steps. count_of ds (step_ID s) = int (length (step_DependsOn s))"
    and ch: "\<And>d. children_of ch d = children_spec steps d"
    by (simp_all add: closed_graph_def children_of_def)
  have "kahn_inv steps [] ds ready"
    using closed cnt
    by (auto simp: kahn_inv_def ready_def keys closed_graph_def step_ids_def topological_def distinct_card)
  with kahn_loop_result [OF this closed _ ch] obtain V' ds' where
    "kahn_loop ch ds ready 0 = length V'" "kahn_inv steps V' ds' []" by auto
  with kahn_inv_complete [OF _ closed] idx show ?thesis
    by (simp add: hasCycle_def ready_def)
qed

section \<open>What NewWorkflow accepts and rejects\<close>

lemma check_steps_Inr:
  "check_steps ss seen = Inr seen' \<longleftrightarrow>
     (\<forall>s\<in>set ss. step_ID s \<noteq> [] \<and> step_Prompt s \<noteq> [] \<and> step_Agent s \<noteq> None) \<and>
     distinct (map step_ID ss) \<and> step_ID ` set ss \<inter> seen = {} \<and> seen' = seen \<union> step_ID ` set ss"
  by (induction ss seen rule: check_steps.induct) auto

lemma check_dependencies_Inr:
  "check_dependencies sid seen ds deps = Inr u \<longleftrightarrow>
     distinct ds \<and> set ds \<inter> deps = {} \<and> set ds \<subseteq> seen \<and> [] \<notin> set ds \<and> sid \<notin> set ds"
  by (induction sid seen ds deps rule: check_dependencies.induct) auto

lemma check_edges_Inr:
  "check_edges ss seen = Inr u \<longleftrightarrow>
     (\<forall>s\<in>set ss. distinct (step_DependsOn s) \<and> set (step_DependsOn s) \<subseteq> seen \<and>
        [] \<notin> set (step_DependsOn s) \<and> step_ID s \<notin> set (step_DependsOn s))"
proof (induction ss seen rule: check_edges.induct)
  case (2 s ss seen)
  note check_dependencies_Inr [of "step_ID s" seen "step_DependsOn s" "{}" "()"]
  with 2 show ?case
    by (cases "check_dependencies (step_ID s) seen (step_DependsOn s) {}") auto
qed simp

lemma check_dependencies_Inl:
  "check_dependencies sid seen ds deps = Inl e \<Longrightarrow>
   e = InvalidDependency sid \<and> (\<exists>d\<in>set ds. d = [] \<or> d = sid) \<or>
   (\<exists>d\<in>set ds. e = UnknownDependency sid d \<and> d \<notin> seen) \<or>
   (\<exists>d\<in>set ds. e = DuplicateDependency sid d \<and> (d \<in> deps \<or> \<not> distinct ds))"
  by (induction sid seen ds deps rule: check_dependencies.induct) (auto split: if_splits)

lemma no_self_edge: "acyclic (dep_edges steps) \<Longrightarrow> s \<in> set steps \<Longrightarrow> step_ID s \<notin> set (step_DependsOn s)"
  by (auto simp: acyclic_def dep_edges_def)

lemma valid_steps_checks:
  "valid_steps steps \<longleftrightarrow> steps \<noteq> [] \<and> check_steps steps {} = Inr (step_ids steps) \<and>
     check_edges steps (step_ids steps) = Inr () \<and> acyclic (dep_edges steps)"
proof -
  have "[] \<notin> step_ids steps" if "\<forall>s\<in>set steps. step_ID s \<noteq> []"
    using that by (auto simp: step_ids_def)
  then show ?thesis
    by (auto simp: valid_steps_def closed_graph_def check_steps_Inr check_edges_Inr
        simp flip: step_ids_def dest: no_self_edge)
qed

lemma checked_closed:
  "check_steps steps {} = Inr seen \<Longrightarrow> check_edges steps seen = Inr u \<Longrightarrow>
   seen = step_ids steps \<and> closed_graph steps"
  by (auto simp: closed_graph_def check_steps_Inr check_edges_Inr step_ids_def)

lemma NewWorkflow_accepts:
  "NewWorkflow ord steps opts = Inr plan \<longleftrightarrow>
     0 \<le> MaxRetries opts \<and> 0 \<le> RetryDelay opts \<and> valid_steps steps \<and>
     plan = \<lparr>wf_steps = steps, wf_options = opts\<rparr>"
proof -
  have "hasCycle ord steps \<longleftrightarrow> \<not> acyclic (dep_edges steps)"
    if "check_steps steps {} = Inr seen" "check_edges steps seen = Inr u" for seen u
    using checked_closed [OF that] by (simp add: hasCycle_closed)
  then show ?thesis
    by (auto simp: NewWorkflow_def valid_steps_checks dest: checked_closed split: sum.splits)
qed

text \<open>
  C10: \<open>NewWorkflow\<close> succeeds exactly on the workflows it is meant to accept: non-negative
  retry settings, at least one step, every step with an ID, a prompt and an agent, distinct
  step IDs, dependencies that are distinct and name steps of the workflow, and an acyclic
  dependency relation. It then returns the given steps and options unchanged, whatever
  order Go ranges over its maps in.
\<close>

theorem NewWorkflow_accepts_iff:
  "NewWorkflow ord steps opts = Inr plan \<longleftrightarrow>
     0 \<le> MaxRetries opts \<and> 0 \<le> RetryDelay opts \<and> valid_steps steps \<and>
     plan = \<lparr>wf_steps = steps, wf_options = opts\<rparr>"
  by (rule NewWorkflow_accepts)

text \<open>
  C20: \<open>hasCycle\<close> decides whether the dependency graph has a cycle: on every workflow
  whose step IDs are distinct and whose dependencies are distinct and known (which the
  checks before it guarantee) Kahn's algorithm visits every step exactly when the
  dependency relation is acyclic, whatever order the map of counts is ranged over in.
\<close>

theorem hasCycle_iff_cyclic:
  assumes "closed_graph steps"
  shows "hasCycle ord steps \<longleftrightarrow> (\<exists>d. (d, d) \<in> (dep_edges steps)\<^sup>+)"
  using hasCycle_closed [OF assms] by (auto simp: acyclic_def)

theorem hasCycle_iff_cyclic_witness:
  "let steps = [\<lparr>step_ID = ''a'', step_Agent = Some (), step_Prompt = ''p'', step_DependsOn = [''b'']\<rparr>,
                \<lparr>step_ID = ''b'', step_Agent = Some (), step_Prompt = ''p'', step_DependsOn = [''a'']\<rparr>]
   in closed_graph steps \<and> hasCycle rev steps \<and> (\<exists>d. (d, d) \<in> (dep_edges steps)\<^sup>+)"
proof -
  let ?steps = "[\<lparr>step_ID = ''a'', step_Agent = Some (), step_Prompt = ''p'', step_DependsOn = [''b'']\<rparr>,
                \<lparr>step_ID = ''b'', step_Agent = Some (), step_Prompt = ''p'', step_DependsOn = [''a'']\<rparr>]"
  have closed: "closed_graph ?steps" by (simp add: closed_graph_def step_ids_def)
  have "hasCycle rev ?steps"
    by (simp add: hasCycle_def range_order_def count_of_def)
  with closed hasCycle_iff_cyclic [OF closed, of rev] show ?thesis by (simp add: Let_def)
qed



end
