(* ===== verification/Workflow_Prompt.thy ===== *)
theory Workflow_Prompt
  imports Workflow_Graph
begin

text \<open>
  Prompt rendering (\<^verbatim>\<open>internal/workflow/workflow.go\<close>): the \<open>outputReference\<close> regular
  expression as a scanner, \<open>regexp.ReplaceAllStringFunc\<close> with the closure that records
  \<open>renderErr\<close>, \<open>strings.TrimSpace\<close> on UTF-8 bytes, and \<open>renderPrompt\<close>. The specification
  is a tokenisation of the prompt into literal bytes and references.
\<close>

section \<open>The outputReference pattern\<close>

text \<open>The character class \<open>[A-Za-z0-9_-]\<close>.\<close>

definition id_char :: "char \<Rightarrow> bool" where
  "id_char c \<longleftrightarrow> c \<in> set ''ABCDEFGHIJKLMNOPQRSTUVWXYZabcdefghijklmnopqrstuvwxyz0123456789_-''"

fun strip_prefix :: "string \<Rightarrow> string \<Rightarrow> string option" where
  "strip_prefix [] s = Some s"
| "strip_prefix (p # ps) [] = None"
| "strip_prefix (p # ps) (c # cs) = (if c = p then strip_prefix ps cs else None)"

text \<open>
  A match at the start of the text: the captured ID and the text after the match. The
  class does not contain the dot that follows it, so the greedy run of class characters is
  the only one that can match and there is nothing to backtrack over.
\<close>

definition match_reference :: "string \<Rightarrow> (string \<times> string) option" where
  "match_reference s =
     (case strip_prefix ''{{steps.'' s of
        None \<Rightarrow> None
      | Some r \<Rightarrow>
          let sid = takeWhile id_char r
          in if sid = [] then None
             else map_option (\<lambda>rest. (sid, rest)) (strip_prefix ''.output}}'' (dropWhile id_char r)))"

definition reference_text :: "string \<Rightarrow> string" where
  "reference_text sid = ''{{steps.'' @ sid @ ''.output}}''"

definition reference_id :: "string \<Rightarrow> bool" where
  "reference_id sid \<longleftrightarrow> sid \<noteq> [] \<and> list_all id_char sid"

lemma strip_prefix_Some: "strip_prefix p s = Some r \<longleftrightarrow> s = p @ r"
  by (induction p s rule: strip_prefix.induct) auto

lemma not_id_char [simp]: "\<not> id_char CHR ''.''" "\<not> id_char CHR ''{''" "\<not> id_char CHR ''}''"
  by (simp_all add: id_char_def)

lemma match_reference_Some:
  "match_reference s = Some (sid, rest) \<longleftrightarrow> reference_id sid \<and> s = reference_text sid @ rest"
proof
  assume "match_reference s = Some (sid, rest)"
  then obtain r where s: "strip_prefix ''{{steps.'' s = Some r"
      and sid: "sid = takeWhile id_char r" and ne: "takeWhile id_char r \<noteq> []"
      and rest: "strip_prefix ''.output}}'' (dropWhile id_char r) = Some rest"
    unfolding match_reference_def Let_def by (simp split: option.splits if_splits)
  have "r = sid @ ''.output}}'' @ rest"
    using rest sid by (metis strip_prefix_Some takeWhile_dropWhile_id)
  moreover have "reference_id sid"
    using ne by (auto simp: reference_id_def sid list_all_iff dest: set_takeWhileD)
  ultimately show "reference_id sid \<and> s = reference_text sid @ rest"
    using s by (simp only: strip_prefix_Some reference_text_def append_assoc)
next
  assume "reference_id sid \<and> s = reference_text sid @ rest"
  then show "match_reference s = Some (sid, rest)"
    by (auto simp: match_reference_def reference_id_def reference_text_def list_all_iff
        takeWhile_append dropWhile_append Let_def)
qed

lemma match_reference_shorter: "match_reference s = Some (sid, rest) \<Longrightarrow> length rest < length s"
  by (auto simp: match_reference_Some reference_text_def)

section \<open>ReplaceAllStringFunc\<close>

text \<open>
  Leftmost, non-overlapping matches are replaced by the result of the closure, everything
  else is copied. The closure assigns a variable of its enclosing function; that variable
  is the state \<open>st\<close> threaded through the calls.
\<close>

function replace_all :: "(string \<Rightarrow> 'st \<Rightarrow> string \<times> 'st) \<Rightarrow> string \<Rightarrow> 'st \<Rightarrow> string \<times> 'st" where
  "replace_all f [] st = ([], st)"
| "replace_all f (c # cs) st =
     (case match_reference (c # cs) of
        Some (sid, rest) \<Rightarrow>
          (let (out, st1) = f (reference_text sid) st; (tail, st2) = replace_all f rest st1
           in (out @ tail, st2))
      | None \<Rightarrow> (let (tail, st1) = replace_all f cs st in (c # tail, st1)))"
  by pat_completeness auto
termination
  by (relation "measure (\<lambda>(f, s, st). length s)") (auto dest: match_reference_shorter)

section \<open>strings.TrimSpace\<close>

text \<open>
  The UTF-8 encodings of the white space characters of Unicode: tab, line feed, vertical
  tab, form feed, carriage return and space, then U+0085, U+00A0, U+1680, U+2000 to U+200A,
  U+2028, U+2029, U+202F, U+205F and U+3000. A byte that is not part of a valid encoding
  decodes to U+FFFD, which is no space, so it never matches.
\<close>

definition space_encodings :: "string list" where
  "space_encodings =
     map (\<lambda>c. [c]) [CHR 0x09, CHR 0x0A, CHR 0x0B, CHR 0x0C, CHR 0x0D, CHR 0x20] @
     [[CHR 0xC2, CHR 0x85], [CHR 0xC2, CHR 0xA0], [CHR 0xE1, CHR 0x9A, CHR 0x80]] @
     map (\<lambda>c. [CHR 0xE2, CHR 0x80, c])
       [CHR 0x80, CHR 0x81, CHR 0x82, CHR 0x83, CHR 0x84, CHR 0x85, CHR 0x86, CHR 0x87,
        CHR 0x88, CHR 0x89, CHR 0x8A, CHR 0xA8, CHR 0xA9, CHR 0xAF] @
     [[CHR 0xE2, CHR 0x81, CHR 0x9F], [CHR 0xE3, CHR 0x80, CHR 0x80]]"

fun strip_any :: "string list \<Rightarrow> string \<Rightarrow> string option" where
  "strip_any [] s = None"
| "strip_any (q # qs) s =
     (case strip_prefix q s of
        Some rest \<Rightarrow> if q = [] then strip_any qs s else Some rest
      | None \<Rightarrow> strip_any qs s)"

lemma strip_any_shorter: "strip_any qs s = Some rest \<Longrightarrow> length rest < length s"
  by (induction qs s rule: strip_any.induct)
    (auto simp: strip_prefix_Some split: option.splits if_splits)

function trim_by :: "string list \<Rightarrow> string \<Rightarrow> string" where
  "trim_by qs s = (case strip_any qs s of None \<Rightarrow> s | Some rest \<Rightarrow> trim_by qs rest)"
  by pat_completeness auto
termination
  by (relation "measure (\<lambda>(qs, s). length s)") (auto dest: strip_any_shorter)

declare trim_by.simps [simp del]

definition TrimSpace :: "string \<Rightarrow> string" where
  "TrimSpace s = rev (trim_by (map rev space_encodings) (rev (trim_by space_encodings s)))"

section \<open>renderPrompt\<close>

definition unavailable :: "string \<Rightarrow> gerror" where
  "unavailable sid = Errorf (''output for step \"'' @ sid @ ''\" is unavailable'')"

definition render_reference ::
  "(string \<rightharpoonup> step_result) \<Rightarrow> string \<Rightarrow> gerror option \<Rightarrow> string \<times> gerror option" where
  "render_reference results match renderErr =
     (case match_reference match of
        None \<Rightarrow> (match, renderErr)
      | Some (sid, _) \<Rightarrow>
          (case results sid of
             None \<Rightarrow> (match, Some (unavailable sid))
           | Some result \<Rightarrow>
               if result_Status result \<noteq> Succeeded then (match, Some (unavailable sid))
               else (result_Output result, renderErr)))"

definition renderPrompt :: "string \<Rightarrow> (string \<rightharpoonup> step_result) \<Rightarrow> gerror + string" where
  "renderPrompt prompt results =
     (case replace_all (render_reference results) prompt None of
        (rendered, Some e) \<Rightarrow> Inl e
      | (rendered, None) \<Rightarrow> Inr (TrimSpace rendered))"

section \<open>The specification: a prompt is a sequence of tokens\<close>

datatype token = Lit char | Ref string

function tokens :: "string \<Rightarrow> token list" where
  "tokens [] = []"
| "tokens (c # cs) =
     (case match_reference (c # cs) of
        Some (sid, rest) \<Rightarrow> Ref sid # tokens rest
      | None \<Rightarrow> Lit c # tokens cs)"
  by pat_completeness auto
termination
  by (relation "measure length") (auto dest: match_reference_shorter)

primrec token_text :: "token \<Rightarrow> string" where
  "token_text (Lit c) = [c]"
| "token_text (Ref sid) = reference_text sid"

definition available :: "(string \<rightharpoonup> step_result) \<Rightarrow> string \<Rightarrow> bool" where
  "available results sid = (case results sid of None \<Rightarrow> False | Some r \<Rightarrow> result_Status r = Succeeded)"

primrec token_value :: "(string \<rightharpoonup> step_result) \<Rightarrow> token \<Rightarrow> string" where
  "token_value results (Lit c) = [c]"
| "token_value results (Ref sid) =
     (if available results sid then result_Output (the (results sid)) else reference_text sid)"

fun missing_refs :: "(string \<rightharpoonup> step_result) \<Rightarrow> token list \<Rightarrow> string list" where
  "missing_refs results [] = []"
| "missing_refs results (Lit c # ts) = missing_refs results ts"
| "missing_refs results (Ref sid # ts) =
     (if available results sid then missing_refs results ts else sid # missing_refs results ts)"

lemma match_reference_text: "reference_id sid \<Longrightarrow> match_reference (reference_text sid @ rest) = Some (sid, rest)"
  by (simp add: match_reference_Some)

lemma render_reference_eq:
  "reference_id sid \<Longrightarrow> render_reference results (reference_text sid) e =
     (token_value results (Ref sid), if available results sid then e else Some (unavailable sid))"
  using match_reference_text [of sid "[]"]
  by (simp add: render_reference_def available_def split: option.split)

lemma replace_all_tokens:
  "replace_all (render_reference results) s e =
     (concat (map (token_value results) (tokens s)),
      case missing_refs results (tokens s) of [] \<Rightarrow> e | m # ms \<Rightarrow> Some (unavailable (last (m # ms))))"
proof (induction s arbitrary: e rule: tokens.induct)
  case (2 c cs)
  show ?case
  proof (cases "match_reference (c # cs)")
    case None
    with "2.IH"(1) [OF None] show ?thesis by simp
  next
    case (Some m)
    then obtain sid rest where m: "match_reference (c # cs) = Some (sid, rest)" by (cases m) auto
    then have "reference_id sid" by (simp add: match_reference_Some)
    with m "2.IH"(2) [OF m refl] show ?thesis
      by (auto simp: render_reference_eq split: list.splits)
  qed
qed simp

lemma missing_refs_Nil:
  "missing_refs results ts = [] \<longleftrightarrow> (\<forall>sid. Ref sid \<in> set ts \<longrightarrow> available results sid)"
  by (induction results ts rule: missing_refs.induct) auto

lemma set_missing_refs:
  "set (missing_refs results ts) = {sid. Ref sid \<in> set ts \<and> \<not> available results sid}"
  by (induction results ts rule: missing_refs.induct) auto

lemma tokens_roundtrip: "concat (map token_text (tokens s)) = s"
  by (induction s rule: tokens.induct)
    (auto simp: match_reference_Some split: option.split)

text \<open>
  A reference is recognised wherever it stands: nothing before it can swallow its first
  brace, since a brace occurs only as the first two characters of the pattern.
\<close>

lemma strip_prefix_before_brace:
  "CHR ''{'' \<notin> set p \<Longrightarrow>
   strip_prefix p (s @ CHR ''{'' # x) = map_option (\<lambda>r. r @ CHR ''{'' # x) (strip_prefix p s)"
  by (induction p s rule: strip_prefix.induct) auto

lemma takeWhile_before_brace: "takeWhile id_char (r @ CHR ''{'' # x) = takeWhile id_char r"
  by (induction r) auto

lemma dropWhile_before_brace: "dropWhile id_char (r @ CHR ''{'' # x) = dropWhile id_char r @ CHR ''{'' # x"
  by (induction r) auto

lemma match_reference_before_braces:
  "match_reference ((c # cs) @ ''{{'' @ x) = map_option (\<lambda>(i, r). (i, r @ ''{{'' @ x)) (match_reference (c # cs))"
proof -
  have strip: "strip_prefix ''{{steps.'' ((c # cs) @ CHR ''{'' # CHR ''{'' # x) =
      map_option (\<lambda>r. r @ CHR ''{'' # CHR ''{'' # x) (strip_prefix ''{{steps.'' (c # cs))"
    by (cases cs) (simp_all add: strip_prefix_before_brace)
  show ?thesis
  proof (cases "strip_prefix ''{{steps.'' (c # cs)")
    case None
    with strip show ?thesis unfolding match_reference_def by (simp del: strip_prefix.simps)
  next
    case (Some r)
    have "strip_prefix ''.output}}'' (dropWhile id_char r @ CHR ''{'' # CHR ''{'' # x) =
      map_option (\<lambda>r. r @ CHR ''{'' # CHR ''{'' # x) (strip_prefix ''.output}}'' (dropWhile id_char r))"
      by (rule strip_prefix_before_brace) simp
    with Some strip show ?thesis
      unfolding match_reference_def
      by (simp add: Let_def takeWhile_before_brace dropWhile_before_brace option.map_comp comp_def
          del: strip_prefix.simps)
  qed
qed

lemma reference_text_braces: "reference_text sid = ''{{'' @ ''steps.'' @ sid @ ''.output}}''"
  by (simp add: reference_text_def)

lemma replace_all_reference:
  assumes "reference_id sid"
  shows "replace_all f (reference_text sid @ post) st =
     (let (out, st1) = f (reference_text sid) st; (tail, st2) = replace_all f post st1
      in (out @ tail, st2))"
proof -
  obtain c cs where "reference_text sid @ post = c # cs" by (simp add: reference_text_def)
  with match_reference_text [OF assms, of post] show ?thesis by simp
qed

lemma replace_all_identity: "replace_all (\<lambda>match st. (match, st)) s st = (s, st)"
  by (induction s rule: tokens.induct) (auto simp: match_reference_Some split: option.split)

lemma replace_all_before_braces:
  assumes y: "y = ''{{'' @ x"
  shows "replace_all f (pre @ y) st =
     (let (before, st1) = replace_all f pre st; (tail, st2) = replace_all f y st1
      in (before @ tail, st2))"
proof (induction pre arbitrary: st rule: tokens.induct)
  case (2 c cs)
  have m: "match_reference ((c # cs) @ y) = map_option (\<lambda>(i, r). (i, r @ y)) (match_reference (c # cs))"
    unfolding y by (rule match_reference_before_braces)
  show ?case
  proof (cases "match_reference (c # cs)")
    case None
    with m "2.IH"(1) [OF None] show ?thesis by (simp add: Let_def split_beta)
  next
    case (Some p)
    then obtain sid rest where "match_reference (c # cs) = Some (sid, rest)" by (cases p) auto
    with m "2.IH"(2) [OF this refl] show ?thesis by (simp add: Let_def split_beta)
  qed
qed (simp add: Let_def)

section \<open>Properties\<close>

text \<open>
  C22: \<open>renderPrompt\<close> succeeds exactly when every reference of the prompt names a step that
  succeeded, and then returns the prompt with each reference replaced by that step's output
  and white space trimmed at both ends. Outputs are inserted as they are: a reference that
  an output contains is not expanded again. Otherwise the error names the last
  reference whose output is unavailable.
\<close>

theorem renderPrompt_spec:
  "renderPrompt prompt results =
     (let ts = tokens prompt; missing = missing_refs results ts
      in if missing = [] then Inr (TrimSpace (concat (map (token_value results) ts)))
         else Inl (unavailable (last missing)))"
  by (simp add: renderPrompt_def replace_all_tokens Let_def split: list.split)



end
