(* ===== verification/Workflow_Run.thy ===== *)
theory Workflow_Run
  imports Workflow_Prompt
begin

text \<open>
  The execution of a workflow (\<^verbatim>\<open>internal/workflow/workflow.go\<close>): \<open>Run\<close>, \<open>readyWave\<close>,
  \<open>skipBlocked\<close>, \<open>runStep\<close>, the dependency tests and \<open>WorkflowError\<close>.

  The run is a state-passing function over an arbitrary world \<open>'w\<close>: everything an agent
  call, a timer or an observer can read or change. What Go leaves open is an argument: the
  order in which maps are ranged over and the order in which the results of a wave arrive on
  the channel.
\<close>

section \<open>The runtime of a run\<close>

text \<open>
  \<open>rt_call\<close> is \<open>agent.Run(ctx, prompt)\<close>; \<open>rt_sleep d\<close> is the \<open>select\<close> between \<open>ctx.Done()\<close> and
  \<open>time.After(d)\<close>: \<open>Some e\<close> when the context ended first, with \<open>e = ctx.Err()\<close>; \<open>rt_notify\<close> is
  \<open>Options.OnStepState\<close>, the identity on the world when it is \<open>nil\<close>.
\<close>

record ('ag, 'w) runtime =
  rt_call :: "'ag option \<Rightarrow> string \<Rightarrow> 'w \<Rightarrow> (gerror + string) \<times> 'w"
  rt_sleep :: "int \<Rightarrow> 'w \<Rightarrow> gerror option \<times> 'w"
  rt_notify :: "step_result \<Rightarrow> 'w \<Rightarrow> 'w"
  rt_range :: "string list \<Rightarrow> string list"
  rt_arrival :: "string list \<Rightarrow> string list"

type_synonym results = "string \<rightharpoonup> step_result"
type_synonym 'ag remaining = "(string \<times> 'ag step) list"

section \<open>runStep\<close>

text \<open>
  The loop of \<open>runStep\<close>. \<open>result.Attempts\<close> stays below \<open>MaxRetries\<close>, an \<open>int\<close>, so the
  increment cannot overflow; the delay is a 64-bit product and can.
\<close>

function runStep ::
  "('ag, 'w) runtime \<Rightarrow> options \<Rightarrow> 'ag option \<Rightarrow> string \<Rightarrow> step_result \<Rightarrow> 'w \<Rightarrow> step_result \<times> 'w" where
  "runStep rt opts agent prompt result w =
     (case rt_call rt agent prompt w of
        (Inr output, w1) \<Rightarrow>
          (result\<lparr>result_Status := Succeeded, result_Output := output, result_Error := []\<rparr>, w1)
      | (Inl err, w1) \<Rightarrow>
          if result_Attempts result \<ge> MaxRetries opts
          then (result\<lparr>result_Status := Failed, result_Error := error_text err\<rparr>, w1)
          else
            (let attempts = result_Attempts result + 1;
                 result1 = result\<lparr>result_Error := error_text err, result_Attempts := attempts,
                                  result_Status := Retrying\<rparr>;
                 delay = wrap64 (attempts * RetryDelay opts)
             in case rt_sleep rt delay w1 of
                  (Some e, w2) \<Rightarrow>
                    (result1\<lparr>result_Status := Failed, result_Error := error_text e\<rparr>, w2)
                | (None, w2) \<Rightarrow> runStep rt opts agent prompt result1 w2))"
  by pat_completeness auto
termination
  by (relation "measure (\<lambda>(rt, opts, agent, prompt, result, w).
        nat (MaxRetries opts - result_Attempts result))") auto

declare runStep.simps [simp del]

definition started :: "string \<Rightarrow> step_result" where
  "started sid = \<lparr>result_ID = sid, result_Status = Running, result_Attempts = 0,
                  result_Output = [], result_Error = []\<rparr>"

section \<open>Dependency tests\<close>

definition dependenciesSucceeded :: "'ag step \<Rightarrow> results \<Rightarrow> bool" where
  "dependenciesSucceeded s R =
     list_all (\<lambda>d. case R d of None \<Rightarrow> False | Some r \<Rightarrow> result_Status r = Succeeded) (step_DependsOn s)"

definition hasFailedDependency :: "'ag step \<Rightarrow> results \<Rightarrow> bool" where
  "hasFailedDependency s R =
     list_ex (\<lambda>d. case R d of None \<Rightarrow> False | Some r \<Rightarrow> result_Status r \<noteq> Succeeded) (step_DependsOn s)"

section \<open>readyWave\<close>

text \<open>
  One pass over the keys of \<open>remaining\<close>; a key is deleted from the map as it is visited,
  which Go allows. The wave is then sorted by ID.
\<close>

fun ready_loop ::
  "results \<Rightarrow> string list \<Rightarrow> 'ag remaining \<Rightarrow> 'ag step list \<Rightarrow> 'ag step list \<times> 'ag remaining" where
  "ready_loop R [] rem ready = (ready, rem)"
| "ready_loop R (k # ks) rem ready =
     (case map_of rem k of
        None \<Rightarrow> ready_loop R ks rem ready
      | Some s \<Rightarrow>
          if dependenciesSucceeded s R then ready_loop R ks (AList.delete k rem) (ready @ [s])
          else ready_loop R ks rem ready)"

definition readyWave ::
  "('ag, 'w) runtime \<Rightarrow> 'ag remaining \<Rightarrow> results \<Rightarrow> 'ag step list \<times> 'ag remaining" where
  "readyWave rt rem R =
     (let (ready, rem') = ready_loop R (range_order (rt_range rt) (map fst rem)) rem []
      in (sort_key step_ID ready, rem'))"

section \<open>skipBlocked\<close>

definition skipped :: "string \<Rightarrow> step_result" where
  "skipped sid = \<lparr>result_ID = sid, result_Status = Skipped, result_Attempts = 0,
                  result_Output = [], result_Error = ''dependency failed''\<rparr>"

fun skip_pass ::
  "string list \<Rightarrow> 'ag remaining \<Rightarrow> results \<Rightarrow> bool \<Rightarrow> 'ag remaining \<times> results \<times> bool" where
  "skip_pass [] rem R blocked = (rem, R, blocked)"
| "skip_pass (k # ks) rem R blocked =
     (case map_of rem k of
        None \<Rightarrow> skip_pass ks rem R blocked
      | Some s \<Rightarrow>
          if hasFailedDependency s R
          then skip_pass ks (AList.delete k rem) (R(k \<mapsto> skipped k)) True
          else skip_pass ks rem R blocked)"

lemma skip_pass_length:
  "skip_pass ks rem R b = (rem', R', b') \<Longrightarrow>
   length rem' \<le> length rem \<and> (b' \<and> \<not> b \<longrightarrow> length rem' < length rem)"
proof (induction ks rem R b rule: skip_pass.induct)
  case (2 k ks rem R b)
  show ?case
  proof (cases "map_of rem k")
    case (Some s)
    note shorter = length_delete_less [OF Some]
    show ?thesis
    proof (cases "hasFailedDependency s R")
      case True
      with Some "2.prems" have
        "skip_pass ks (AList.delete k rem) (R(k \<mapsto> skipped k)) True = (rem', R', b')" by simp
      from "2.IH"(2) [OF Some True this] shorter show ?thesis by simp
    next
      case False
      with Some "2.prems" have "skip_pass ks rem R b = (rem', R', b')" by simp
      from "2.IH"(3) [OF Some False this] show ?thesis .
    qed
  qed (use "2.IH"(1) "2.prems" in simp)
qed simp

function skipBlocked ::
  "('ag, 'w) runtime \<Rightarrow> 'ag remaining \<Rightarrow> results \<Rightarrow> 'ag remaining \<times> results" where
  "skipBlocked rt rem R =
     (case skip_pass (range_order (rt_range rt) (map fst rem)) rem R False of
        (rem', R', blocked) \<Rightarrow> if \<not> blocked then (rem', R') else skipBlocked rt rem' R')"
  by pat_completeness auto
termination
  by (relation "measure (\<lambda>(rt, rem, R). length rem)") (auto dest!: sym [THEN skip_pass_length])

declare skipBlocked.simps [simp del]

section \<open>Run\<close>

text \<open>
  A step whose prompt does not render fails without an agent call; the others run. The
  results of a wave are taken from the channel in the order they arrive, and the observer is
  told of each as it arrives.
\<close>

definition step_outcome ::
  "('ag, 'w) runtime \<Rightarrow> options \<Rightarrow> 'ag step \<Rightarrow> gerror + string \<Rightarrow> 'w \<Rightarrow> step_result \<times> 'w" where
  "step_outcome rt opts s rendered w =
     (case rendered of
        Inl e \<Rightarrow> (\<lparr>result_ID = step_ID s, result_Status = Failed, result_Attempts = 0,
                   result_Output = [], result_Error = error_text e\<rparr>, w)
      | Inr prompt \<Rightarrow> runStep rt opts (step_Agent s) prompt (started (step_ID s)) w)"

fun drain ::
  "('ag, 'w) runtime \<Rightarrow> options \<Rightarrow> (string \<times> 'ag step \<times> (gerror + string)) list \<Rightarrow> string list
   \<Rightarrow> results \<Rightarrow> 'w \<Rightarrow> results \<times> 'w" where
  "drain rt opts wave [] R w = (R, w)"
| "drain rt opts wave (k # ks) R w =
     (case map_of wave k of
        None \<Rightarrow> drain rt opts wave ks R w
      | Some (s, rendered) \<Rightarrow>
          (let (result, w1) = step_outcome rt opts s rendered w
           in drain rt opts wave ks (R(result_ID result \<mapsto> result)) (rt_notify rt result w1)))"

definition render_wave ::
  "'ag step list \<Rightarrow> results \<Rightarrow> (string \<times> 'ag step \<times> (gerror + string)) list" where
  "render_wave ready R = map (\<lambda>s. (step_ID s, s, renderPrompt (step_Prompt s) R)) ready"

lemma ready_loop_length:
  "ready_loop R ks rem ready = (ready', rem') \<Longrightarrow>
   length ready' + length rem' \<le> length ready + length rem"
proof (induction R ks rem ready rule: ready_loop.induct)
  case (2 R k ks rem ready)
  then show ?case
    by (fastforce split: option.splits if_splits dest: length_delete_less)
qed simp

lemma readyWave_length:
  "readyWave rt rem R = (ready, rem') \<Longrightarrow> length ready + length rem' \<le> length rem"
  by (auto simp: readyWave_def split: prod.splits dest: ready_loop_length)

lemma skipBlocked_length: "skipBlocked rt rem R = (rem', R') \<Longrightarrow> length rem' \<le> length rem"
proof (induction rt rem R arbitrary: rem' R' rule: skipBlocked.induct)
  case (1 rt rem R)
  obtain rem1 R1 b where pass: "skip_pass (range_order (rt_range rt) (map fst rem)) rem R False = (rem1, R1, b)"
    by (metis prod_cases3)
  from "1.prems" pass have res: "(if \<not> b then (rem1, R1) else skipBlocked rt rem1 R1) = (rem', R')"
    by (simp add: skipBlocked.simps [of rt rem R])
  from skip_pass_length [OF pass] "1.IH" [OF pass [symmetric] refl] res show ?case
    by (cases b) force+
qed

function run_loop ::
  "('ag, 'w) runtime \<Rightarrow> options \<Rightarrow> 'ag remaining \<Rightarrow> results \<Rightarrow> 'w \<Rightarrow> results \<times> 'w" where
  "run_loop rt opts rem R w =
     (if rem = [] then (R, w)
      else case readyWave rt rem R of
        (ready, rem1) \<Rightarrow>
          if ready = [] then (R, w)
          else case drain rt opts (render_wave ready R)
                      (range_order (rt_arrival rt) (map step_ID ready)) R w of
            (R1, w1) \<Rightarrow>
              (case skipBlocked rt rem1 R1 of
                 (rem2, R2) \<Rightarrow> run_loop rt opts rem2 R2 w1))"
  by pat_completeness auto
termination
proof (relation "measure (\<lambda>(rt, opts, rem, R, w). length rem)", goal_cases)
  case 2
  then show ?case
    by (auto dest!: sym [THEN skipBlocked_length] sym [THEN readyWave_length] simp: neq_Nil_conv)
qed simp

declare run_loop.simps [simp del]

text \<open>
  \<open>Resume\<close> seeds the results: only succeeded results of steps that are still remaining, so
  of two results for one step the first is kept.
\<close>

fun seed_resume :: "step_result list \<Rightarrow> 'ag remaining \<Rightarrow> results \<Rightarrow> 'ag remaining \<times> results" where
  "seed_resume [] rem R = (rem, R)"
| "seed_resume (prior # ps) rem R =
     (if result_Status prior \<noteq> Succeeded then seed_resume ps rem R
      else if map_of rem (result_ID prior) = None then seed_resume ps rem R
      else seed_resume ps (AList.delete (result_ID prior) rem) (R(result_ID prior \<mapsto> prior)))"

definition all_remaining :: "'ag step list \<Rightarrow> 'ag remaining" where
  "all_remaining steps = fold (\<lambda>s rem. AList.update (step_ID s) s rem) steps []"

record workflow_error =
  we_StepID :: string
  we_Err :: gerror

definition not_run :: "string \<Rightarrow> step_result" where
  "not_run sid = \<lparr>result_ID = sid, result_Status = Skipped, result_Attempts = 0,
                  result_Output = [], result_Error = ''workflow did not run''\<rparr>"

fun collect ::
  "'ag step list \<Rightarrow> results \<Rightarrow> step_result list \<Rightarrow> workflow_error option
   \<Rightarrow> step_result list \<times> workflow_error option" where
  "collect [] R ordered err = (ordered, err)"
| "collect (s # ss) R ordered err =
     (let result = (case R (step_ID s) of None \<Rightarrow> not_run (step_ID s) | Some r \<Rightarrow> r)
      in collect ss R (ordered @ [result])
           (if result_Status result = Failed \<and> err = None
            then Some \<lparr>we_StepID = step_ID s, we_Err = Errorf (result_Error result)\<rparr> else err))"

definition Run ::
  "('ag, 'w) runtime \<Rightarrow> 'ag workflow \<Rightarrow> 'w \<Rightarrow> (step_result list \<times> workflow_error option) \<times> 'w" where
  "Run rt plan w =
     (let (rem, R) = seed_resume (Resume (wf_options plan)) (all_remaining (wf_steps plan)) Map.empty;
          (R', w') = run_loop rt (wf_options plan) rem R w
      in (collect (wf_steps plan) R' [] None, w'))"

text \<open>\<open>WorkflowError\<close> as an error value: \<open>Error()\<close> and \<open>Unwrap()\<close>.\<close>

definition workflow_gerror :: "workflow_error \<Rightarrow> gerror" where
  "workflow_gerror e =
     Wrapf (''workflow failed at step '' @ go_quote (we_StepID e) @ '': '' @ error_text (we_Err e)) (we_Err e)"

end
