(* ===== verification/Workflow_Spec.thy ===== *)
theory Workflow_Spec
  imports Workflow_Run
begin

text \<open>
  What a run of a workflow guarantees: the retry policy of \<open>runStep\<close>, the equations every
  result satisfies, completeness (every step of a valid workflow is settled), the error
  that is reported, independence of map iteration and arrival order, and an invariant rule
  for the effects of a run on the world.
\<close>

section \<open>runStep\<close>

lemma runStep_cases [consumes 1, case_names success exhausted retry_cancelled retry]:
  assumes "runStep rt opts ag p r w = (r', w')"
  obtains out where "rt_call rt ag p w = (Inr out, w')"
      "r' = r\<lparr>result_Status := Succeeded, result_Output := out, result_Error := []\<rparr>"
  | err where "rt_call rt ag p w = (Inl err, w')" "MaxRetries opts \<le> result_Attempts r"
      "r' = r\<lparr>result_Status := Failed, result_Error := error_text err\<rparr>"
  | err w1 e where "rt_call rt ag p w = (Inl err, w1)" "result_Attempts r < MaxRetries opts"
      "rt_sleep rt (wrap64 ((result_Attempts r + 1) * RetryDelay opts)) w1 = (Some e, w')"
      "r' = r\<lparr>result_Attempts := result_Attempts r + 1, result_Status := Failed,
               result_Error := error_text e\<rparr>"
  | err w1 w2 where "rt_call rt ag p w = (Inl err, w1)" "result_Attempts r < MaxRetries opts"
      "rt_sleep rt (wrap64 ((result_Attempts r + 1) * RetryDelay opts)) w1 = (None, w2)"
      "runStep rt opts ag p (r\<lparr>result_Error := error_text err,
         result_Attempts := result_Attempts r + 1, result_Status := Retrying\<rparr>) w2 = (r', w')"
  using assms
  by (subst (asm) runStep.simps)
    (auto simp: Let_def not_le split: prod.splits sum.splits if_splits option.splits)

lemma runStep_induct [consumes 1, case_names success exhausted retry_cancelled retry]:
  assumes run: "runStep rt opts ag p r w = (r', w')"
    and "\<And>r w w' out. rt_call rt ag p w = (Inr out, w') \<Longrightarrow>
      P r w (r\<lparr>result_Status := Succeeded, result_Output := out, result_Error := []\<rparr>) w'"
    and "\<And>r w w' err. rt_call rt ag p w = (Inl err, w') \<Longrightarrow> MaxRetries opts \<le> result_Attempts r \<Longrightarrow>
      P r w (r\<lparr>result_Status := Failed, result_Error := error_text err\<rparr>) w'"
    and "\<And>r w w1 w' err e. rt_call rt ag p w = (Inl err, w1) \<Longrightarrow> result_Attempts r < MaxRetries opts \<Longrightarrow>
      rt_sleep rt (wrap64 ((result_Attempts r + 1) * RetryDelay opts)) w1 = (Some e, w') \<Longrightarrow>
      P r w (r\<lparr>result_Attempts := result_Attempts r + 1, result_Status := Failed,
               result_Error := error_text e\<rparr>) w'"
    and "\<And>r w w1 w2 r' w' err. rt_call rt ag p w = (Inl err, w1) \<Longrightarrow>
      result_Attempts r < MaxRetries opts \<Longrightarrow>
      rt_sleep rt (wrap64 ((result_Attempts r + 1) * RetryDelay opts)) w1 = (None, w2) \<Longrightarrow>
      P (r\<lparr>result_Error := error_text err, result_Attempts := result_Attempts r + 1,
           result_Status := Retrying\<rparr>) w2 r' w' \<Longrightarrow> P r w r' w'"
  shows "P r w r' w'"
  using run
proof (induction "nat (MaxRetries opts - result_Attempts r)" arbitrary: r w rule: less_induct)
  case less
  from less.prems show ?case
  proof (cases rule: runStep_cases)
    case (retry err w1 w2)
    from retry(2) have "P (r\<lparr>result_Error := error_text err, result_Attempts := result_Attempts r + 1,
        result_Status := Retrying\<rparr>) w2 r' w'"
      by (intro less.hyps retry(4)) auto
    with retry assms(5) show ?thesis by blast
  qed (use assms(2-4) in blast)+
qed

lemma runStep_ID: "runStep rt opts ag p r w = (r', w') \<Longrightarrow> result_ID r' = result_ID r"
  by (induction rule: runStep_induct) auto

lemma runStep_terminal:
  "runStep rt opts ag p r w = (r', w') \<Longrightarrow> result_Status r' = Succeeded \<or> result_Status r' = Failed"
  by (induction rule: runStep_induct) auto

lemma runStep_world:
  assumes "runStep rt opts ag p r w = (r', w')" and "I w"
    and "\<And>w. I w \<Longrightarrow> I (snd (rt_call rt ag p w))"
    and "\<And>d w. I w \<Longrightarrow> I (snd (rt_sleep rt d w))"
  shows "I w'"
  using assms(1,2)
proof (induction rule: runStep_induct)
  case (success r w w' out)
  with assms(3) [of w] show ?case by simp
next
  case (exhausted r w w' err)
  with assms(3) [of w] show ?case by simp
next
  case (retry_cancelled r w w1 w' err e)
  then show ?case by (metis assms(3,4) snd_conv)
next
  case (retry r w w1 w2 r' w' err)
  then show ?case by (metis assms(3,4) snd_conv)
qed

lemma runStep_pure:
  assumes "\<And>ag p w w'. fst (rt_call rt ag p w) = fst (rt_call rt ag p w')"
    and "\<And>d w w'. fst (rt_sleep rt d w) = fst (rt_sleep rt d w')"
  shows "fst (runStep rt opts ag p r w) = fst (runStep rt opts ag p r v)"
proof (induction "nat (MaxRetries opts - result_Attempts r)" arbitrary: r w v rule: less_induct)
  case less
  obtain res w1 where w1: "rt_call rt ag p w = (res, w1)" by fastforce
  obtain v1 where v1: "rt_call rt ag p v = (res, v1)" by (metis assms(1) w1 fst_conv prod.collapse)
  define delay where "delay = wrap64 ((result_Attempts r + 1) * RetryDelay opts)"
  obtain e w2 where w2: "rt_sleep rt delay w1 = (e, w2)" by fastforce
  obtain v2 where v2: "rt_sleep rt delay v1 = (e, v2)" by (metis assms(2) w2 fst_conv prod.collapse)
  show ?case
  proof (cases "\<exists>err. res = Inl err \<and> result_Attempts r < MaxRetries opts \<and> e = None")
    case True
    then obtain err where err: "res = Inl err" "result_Attempts r < MaxRetries opts" "e = None" by blast
    let ?r = "r\<lparr>result_Error := error_text err, result_Attempts := result_Attempts r + 1,
                 result_Status := Retrying\<rparr>"
    have "fst (runStep rt opts ag p ?r w2) = fst (runStep rt opts ag p ?r v2)"
      using err by (intro less.hyps) simp
    with err w1 v1 w2 v2 show ?thesis
      by (simp add: runStep.simps [of rt opts ag p r] Let_def delay_def)
  next
    case False
    with w1 v1 w2 v2 show ?thesis
      by (auto simp: runStep.simps [of rt opts ag p r] Let_def delay_def split: sum.split option.split)
  qed
qed

section \<open>The remaining steps\<close>

text \<open>\<open>remaining\<close> maps IDs to the step of that ID.\<close>

definition rem_ok :: "'ag remaining \<Rightarrow> bool" where
  "rem_ok rem \<longleftrightarrow> distinct_keys rem \<and> (\<forall>(k, s)\<in>set rem. k = step_ID s)"

definition rem_ids :: "'ag remaining \<Rightarrow> string set" where
  "rem_ids rem = fst ` set rem"

lemma rem_ok_lookup: "rem_ok rem \<Longrightarrow> map_of rem k = Some s \<longleftrightarrow> (k, s) \<in> set rem"
  by (simp add: rem_ok_def)

lemma rem_ok_unique: "rem_ok rem \<Longrightarrow> (k, s) \<in> set rem \<Longrightarrow> (k, t) \<in> set rem \<Longrightarrow> s = t"
  by (auto simp: rem_ok_def intro: eq_key_imp_eq_value)

lemma rem_ok_entry: "rem_ok rem \<Longrightarrow> s \<in> snd ` set rem \<Longrightarrow> (step_ID s, s) \<in> set rem"
  by (auto simp: rem_ok_def)

lemma rem_ok_inj: "rem_ok rem \<Longrightarrow> inj_on step_ID (snd ` set rem)"
  by (rule inj_onI) (metis rem_ok_entry rem_ok_unique)

lemma rem_ok_filter: "rem_ok rem \<Longrightarrow> rem_ok (filter P rem)"
  by (auto simp: rem_ok_def distinct_map_filter)

lemma rem_ok_delete: "rem_ok rem \<Longrightarrow> rem_ok (AList.delete k rem)"
  unfolding AList.delete_eq by (rule rem_ok_filter)

lemma delete_filter: "AList.delete k rem = filter (\<lambda>(j, s). j \<noteq> k) rem"
  by (auto simp: AList.delete_eq intro!: filter_cong)

subsection \<open>readyWave\<close>

lemma ready_loop_spec:
  "ready_loop R ks rem ready = (ready', rem') \<Longrightarrow> rem_ok rem \<Longrightarrow> distinct ks \<Longrightarrow>
   rem' = filter (\<lambda>(k, s). \<not> (k \<in> set ks \<and> dependenciesSucceeded s R)) rem \<and>
   ready' = ready @ map (\<lambda>k. the (map_of rem k))
     (filter (\<lambda>k. \<exists>s. map_of rem k = Some s \<and> dependenciesSucceeded s R) ks)"
proof (induction R ks rem ready rule: ready_loop.induct)
  case (2 R k ks rem ready)
  show ?case
  proof (cases "\<exists>s. map_of rem k = Some s \<and> dependenciesSucceeded s R")
    case True
    then obtain s where s: "map_of rem k = Some s" "dependenciesSucceeded s R" by blast
    have other: "map_of (AList.delete k rem) j = map_of rem j" if "j \<in> set ks" for j
      using "2.prems"(3) that by auto
    have "rem' = filter (\<lambda>(j, t). \<not> (j \<in> set ks \<and> dependenciesSucceeded t R)) (AList.delete k rem) \<and>
      ready' = (ready @ [s]) @ map (\<lambda>j. the (map_of (AList.delete k rem) j))
        (filter (\<lambda>j. \<exists>t. map_of (AList.delete k rem) j = Some t \<and> dependenciesSucceeded t R) ks)"
      using "2.prems" s by (intro "2.IH"(2) [OF s]) (auto simp: rem_ok_delete)
    moreover have "filter (\<lambda>(j, t). \<not> (j \<in> set ks \<and> dependenciesSucceeded t R)) (AList.delete k rem)
      = filter (\<lambda>(j, t). \<not> (j \<in> set (k # ks) \<and> dependenciesSucceeded t R)) rem"
      using s "2.prems"(3) rem_ok_lookup [OF "2.prems"(2)] unfolding delete_filter filter_filter
      by (intro filter_cong) (auto dest: rem_ok_unique [OF "2.prems"(2)])
    moreover have "filter (\<lambda>j. \<exists>t. map_of (AList.delete k rem) j = Some t \<and> dependenciesSucceeded t R) ks
      = filter (\<lambda>j. \<exists>t. map_of rem j = Some t \<and> dependenciesSucceeded t R) ks"
      using other by (intro filter_cong) auto
    ultimately show ?thesis using s other by auto
  next
    case False
    then have "rem' = filter (\<lambda>(j, t). \<not> (j \<in> set ks \<and> dependenciesSucceeded t R)) rem \<and>
      ready' = ready @ map (\<lambda>j. the (map_of rem j))
        (filter (\<lambda>j. \<exists>t. map_of rem j = Some t \<and> dependenciesSucceeded t R) ks)"
      using "2.IH"(1,3) "2.prems" by (cases "map_of rem k") auto
    moreover have "filter (\<lambda>(j, t). \<not> (j \<in> set ks \<and> dependenciesSucceeded t R)) rem
      = filter (\<lambda>(j, t). \<not> (j \<in> set (k # ks) \<and> dependenciesSucceeded t R)) rem"
      using False "2.prems"(2) by (intro filter_cong) (auto simp: rem_ok_lookup)
    ultimately show ?thesis using False by auto
  qed
qed auto

lemma readyWave_eq:
  assumes ok: "rem_ok rem"
  shows "readyWave rt rem R =
    (sort_key step_ID (filter (\<lambda>s. dependenciesSucceeded s R) (map snd rem)),
     filter (\<lambda>(k, s). \<not> dependenciesSucceeded s R) rem)"
proof -
  define ks where "ks = range_order (rt_range rt) (map fst rem)"
  obtain ready rem' where loop: "ready_loop R ks rem [] = (ready, rem')" by fastforce
  have dist: "distinct ks" and set_ks: "set ks = fst ` set rem" and mset_ks: "mset ks = mset (map fst rem)"
    using ok by (simp_all add: ks_def rem_ok_def)
  from ready_loop_spec [OF loop ok dist]
  have rem': "rem' = filter (\<lambda>(k, s). \<not> (k \<in> set ks \<and> dependenciesSucceeded s R)) rem"
    and ready: "ready = map (\<lambda>k. the (map_of rem k))
      (filter (\<lambda>k. \<exists>s. map_of rem k = Some s \<and> dependenciesSucceeded s R) ks)" by auto
  have rem_eq: "rem' = filter (\<lambda>(k, s). \<not> dependenciesSucceeded s R) rem"
    unfolding rem' set_ks by (intro filter_cong) force+
  define succ where "succ = filter (\<lambda>s. dependenciesSucceeded s R) (map snd rem)"
  have "mset ready = image_mset (\<lambda>k. the (map_of rem k))
      (filter_mset (\<lambda>k. \<exists>s. map_of rem k = Some s \<and> dependenciesSucceeded s R) (mset (map fst rem)))"
    unfolding ready by (simp only: mset_map mset_filter mset_ks)
  also have "\<dots> = mset (map (\<lambda>k. the (map_of rem k))
      (filter (\<lambda>k. \<exists>s. map_of rem k = Some s \<and> dependenciesSucceeded s R) (map fst rem)))"
    by (simp only: mset_map mset_filter)
  also have "map (\<lambda>k. the (map_of rem k))
      (filter (\<lambda>k. \<exists>s. map_of rem k = Some s \<and> dependenciesSucceeded s R) (map fst rem)) = succ"
  proof -
    have "filter (\<lambda>k. \<exists>s. map_of rem k = Some s \<and> dependenciesSucceeded s R) (map fst rem)
        = map fst (filter (\<lambda>(k, s). dependenciesSucceeded s R) rem)"
      unfolding filter_map comp_def
      by (intro arg_cong [where f = "map fst"] filter_cong)
        (auto simp: rem_ok_lookup [OF ok] dest: rem_ok_unique [OF ok])
    then show ?thesis
      using ok by (auto simp: succ_def filter_map comp_def split_def rem_ok_def)
  qed
  finally have ms: "mset ready = mset succ" .
  have "sort_key step_ID ready = sort_key step_ID succ"
  proof (rule sort_key_inj_key_eq)
    show "inj_on step_ID (set ready)"
      unfolding mset_eq_setD [OF ms]
      by (rule inj_on_subset [OF rem_ok_inj [OF ok]]) (auto simp: succ_def)
  qed (use ms in auto)
  with loop rem_eq show ?thesis by (simp add: readyWave_def ks_def [symmetric] succ_def)
qed

subsection \<open>Draining a wave\<close>

lemma step_outcome_ID: "step_outcome rt opts s rendered w = (r, w') \<Longrightarrow> result_ID r = step_ID s"
  by (auto simp: step_outcome_def started_def dest: runStep_ID split: sum.splits)

lemma step_outcome_terminal:
  "step_outcome rt opts s rendered w = (r, w') \<Longrightarrow> result_Status r = Succeeded \<or> result_Status r = Failed"
  by (auto simp: step_outcome_def dest: runStep_terminal split: sum.splits)

lemma drain_other:
  "drain rt opts wave ks R w = (R', w') \<Longrightarrow> (\<forall>(j, s, rendered)\<in>set wave. j = step_ID s) \<Longrightarrow>
   k \<notin> set ks \<or> map_of wave k = None \<Longrightarrow> R' k = R k"
proof (induction rt opts wave ks R w rule: drain.induct)
  case (2 rt opts wave j ks R w)
  show ?case
  proof (cases "map_of wave j")
    case None
    with "2.IH"(1) "2.prems" show ?thesis by auto
  next
    case (Some a)
    obtain s rendered where a: "a = (s, rendered)" by fastforce
    obtain result w1 where out: "step_outcome rt opts s rendered w = (result, w1)" by fastforce
    from Some a "2.prems"(2) have "step_ID s = j" by (auto dest: map_of_SomeD)
    with out have "result_ID result = j" by (auto dest: step_outcome_ID)
    moreover from "2.prems" Some a out have
      rest: "drain rt opts wave ks (R(result_ID result \<mapsto> result)) (rt_notify rt result w1) = (R', w')"
      by simp
    from "2.IH"(2) [OF Some a [symmetric] refl out [symmetric] rest "2.prems"(2)] "2.prems"(3)
    have "R' k = (R(result_ID result \<mapsto> result)) k" by auto
    ultimately show ?thesis using Some "2.prems"(3) by auto
  qed
qed simp

lemma drain_results:
  "drain rt opts wave ks R w = (R', w') \<Longrightarrow> (\<forall>(j, s, rendered)\<in>set wave. j = step_ID s) \<Longrightarrow>
   distinct ks \<Longrightarrow> k \<in> set ks \<Longrightarrow> map_of wave k = Some (s, rendered) \<Longrightarrow>
   \<exists>v. R' k = Some (fst (step_outcome rt opts s rendered v))"
proof (induction rt opts wave ks R w rule: drain.induct)
  case (2 rt opts wave j ks R w)
  show ?case
  proof (cases "map_of wave j")
    case None
    with "2.IH"(1) "2.prems" show ?thesis by auto
  next
    case (Some a)
    obtain t prompt where a: "a = (t, prompt)" by fastforce
    obtain result w1 where out: "step_outcome rt opts t prompt w = (result, w1)" by fastforce
    from Some a "2.prems"(2) have "step_ID t = j" by (auto dest: map_of_SomeD)
    with out have id: "result_ID result = j" by (auto dest: step_outcome_ID)
    from "2.prems" Some a out have
      rest: "drain rt opts wave ks (R(result_ID result \<mapsto> result)) (rt_notify rt result w1) = (R', w')"
      by simp
    show ?thesis
    proof (cases "k = j")
      case True
      with drain_other [OF rest "2.prems"(2), of k] "2.prems"(3) id
      have "R' k = Some result" by simp
      with True Some a "2.prems"(5) out show ?thesis by (metis fst_conv option.inject prod.inject)
    next
      case False
      with "2.IH"(2) [OF Some a [symmetric] refl out [symmetric] rest "2.prems"(2)] "2.prems" show ?thesis by auto
    qed
  qed
qed simp

lemma drain_world:
  assumes "drain rt opts wave ks R w = (R', w')" and "I w"
    and "\<forall>(k, s, rendered)\<in>set wave. P s"
    and call: "\<And>s p w. P s \<Longrightarrow> I w \<Longrightarrow> I (snd (rt_call rt (step_Agent s) p w))"
    and sleep: "\<And>d w. I w \<Longrightarrow> I (snd (rt_sleep rt d w))"
    and notify: "\<And>s r w. P s \<Longrightarrow> I w \<Longrightarrow> result_ID r = step_ID s \<Longrightarrow>
      result_Status r = Succeeded \<or> result_Status r = Failed \<Longrightarrow> I (rt_notify rt r w)"
  shows "I w'"
  using assms(1-3) call sleep notify
proof (induction rt opts wave ks R w rule: drain.induct)
  case (2 rt opts wave j ks R w)
  show ?case
  proof (cases "map_of wave j")
    case None
    with "2.IH"(1) "2.prems" show ?thesis by auto
  next
    case (Some a)
    obtain t prompt where a: "a = (t, prompt)" by fastforce
    obtain result w1 where out: "step_outcome rt opts t prompt w = (result, w1)" by fastforce
    from Some a "2.prems"(3) have P: "P t" by (auto dest: map_of_SomeD)
    have "I w1"
    proof (cases prompt)
      case (Inr p)
      with out have run: "runStep rt opts (step_Agent t) p (started (step_ID t)) w = (result, w1)"
        by (simp add: step_outcome_def)
      show ?thesis
        by (rule runStep_world [OF run, of I]) (use "2.prems"(2,4,5) P in auto)
    qed (use out "2.prems"(2) in \<open>simp add: step_outcome_def\<close>)
    then have "I (rt_notify rt result w1)"
      using P step_outcome_ID [OF out] step_outcome_terminal [OF out] by (intro "2.prems"(6)) auto
    moreover from "2.prems" Some a out have
      "drain rt opts wave ks (R(result_ID result \<mapsto> result)) (rt_notify rt result w1) = (R', w')"
      by simp
    ultimately show ?thesis
      using "2.IH"(2) [OF Some a [symmetric] refl out [symmetric]] "2.prems"(3-6) by blast
  qed
qed simp

subsection \<open>skipBlocked\<close>

text \<open>The steps a failure blocks, directly or through a chain of remaining steps.\<close>

inductive_set blocked :: "'ag remaining \<Rightarrow> results \<Rightarrow> string set" for rem R where
  direct: "(k, s) \<in> set rem \<Longrightarrow> hasFailedDependency s R \<Longrightarrow> k \<in> blocked rem R"
| chain: "(k, s) \<in> set rem \<Longrightarrow> d \<in> set (step_DependsOn s) \<Longrightarrow> d \<in> blocked rem R \<Longrightarrow> k \<in> blocked rem R"

definition skip_set :: "string set \<Rightarrow> 'ag remaining \<Rightarrow> results \<Rightarrow> 'ag remaining \<times> results" where
  "skip_set S rem R = (filter (\<lambda>(k, s). k \<notin> S) rem, \<lambda>k. if k \<in> S then Some (skipped k) else R k)"

lemma blocked_keys: "blocked rem R \<subseteq> rem_ids rem"
  by (rule subsetI, erule blocked.induct) (auto simp: rem_ids_def intro: rev_image_eqI)

lemma hasFailedDependency_iff:
  "hasFailedDependency s R \<longleftrightarrow> (\<exists>d\<in>set (step_DependsOn s). \<exists>r. R d = Some r \<and> result_Status r \<noteq> Succeeded)"
  by (auto simp: hasFailedDependency_def list_ex_iff split: option.splits)

lemma dependenciesSucceeded_iff:
  "dependenciesSucceeded s R \<longleftrightarrow> (\<forall>d\<in>set (step_DependsOn s). \<exists>r. R d = Some r \<and> result_Status r = Succeeded)"
  by (auto simp: dependenciesSucceeded_def list_all_iff split: option.splits)

lemma skip_pass_sound:
  assumes "skip_pass ks rem R b = (rem', R', b')" and "rem_ok rem0"
    and "(rem, R) = skip_set S rem0 R0" and "S \<subseteq> blocked rem0 R0"
  shows "\<exists>S'. (rem', R') = skip_set S' rem0 R0 \<and> S' \<subseteq> blocked rem0 R0"
  using assms
proof (induction ks rem R b arbitrary: S rule: skip_pass.induct)
  case (2 k ks rem R b)
  show ?case
  proof (cases "\<exists>s. map_of rem k = Some s \<and> hasFailedDependency s R")
    case True
    then obtain s where s: "map_of rem k = Some s" "hasFailedDependency s R" by blast
    from s "2.prems"(3) have mem: "(k, s) \<in> set rem0" by (auto simp: skip_set_def dest!: map_of_SomeD)
    from s(2) obtain d r where d: "d \<in> set (step_DependsOn s)" "R d = Some r" "result_Status r \<noteq> Succeeded"
      by (auto simp: hasFailedDependency_iff)
    have "k \<in> blocked rem0 R0"
    proof (cases "d \<in> S")
      case True
      with mem d "2.prems"(4) show ?thesis by (auto intro: blocked.chain)
    next
      case False
      with d "2.prems"(3) have "hasFailedDependency s R0"
        by (auto simp: hasFailedDependency_iff skip_set_def)
      with mem show ?thesis by (rule blocked.direct)
    qed
    moreover have "(AList.delete k rem, R(k \<mapsto> skipped k)) = skip_set (insert k S) rem0 R0"
      using "2.prems"(3) by (auto simp: skip_set_def delete_filter fun_eq_iff intro!: filter_cong)
    moreover from s "2.prems"(1) have
      "skip_pass ks (AList.delete k rem) (R(k \<mapsto> skipped k)) True = (rem', R', b')" by simp
    ultimately show ?thesis using "2.IH"(2) [OF s] "2.prems"(2,4) by blast
  next
    case False
    with "2.prems"(1) have "skip_pass ks rem R b = (rem', R', b')" by (auto split: option.splits)
    with False "2.IH"(1,3) "2.prems"(2-4) show ?thesis by (cases "map_of rem k") auto
  qed
qed auto

lemma skip_pass_unblocked:
  "skip_pass ks rem R b = (rem', R', b') \<Longrightarrow> \<not> b' \<Longrightarrow>
   \<not> b \<and> rem' = rem \<and> R' = R \<and> (\<forall>k\<in>set ks. \<forall>s. map_of rem k = Some s \<longrightarrow> \<not> hasFailedDependency s R)"
proof (induction ks rem R b rule: skip_pass.induct)
  case (2 k ks rem R b)
  show ?case
  proof (cases "\<exists>s. map_of rem k = Some s \<and> hasFailedDependency s R")
    case True
    then obtain s where s: "map_of rem k = Some s" "hasFailedDependency s R" by blast
    with "2.prems"(1) have
      "skip_pass ks (AList.delete k rem) (R(k \<mapsto> skipped k)) True = (rem', R', b')" by simp
    from "2.IH"(2) [OF s this "2.prems"(2)] show ?thesis by simp
  next
    case False
    with "2.prems"(1) have "skip_pass ks rem R b = (rem', R', b')" by (auto split: option.splits)
    with False "2.IH"(1,3) "2.prems"(2) show ?thesis by (cases "map_of rem k") auto
  qed
qed simp

lemma skipBlocked_skip_set:
  "skipBlocked rt rem R = (rem', R') \<Longrightarrow> rem_ok rem0 \<Longrightarrow> (rem, R) = skip_set S rem0 R0 \<Longrightarrow>
   S \<subseteq> blocked rem0 R0 \<Longrightarrow>
   (\<exists>S'. (rem', R') = skip_set S' rem0 R0 \<and> S' \<subseteq> blocked rem0 R0) \<and>
   (\<forall>(k, s)\<in>set rem'. \<not> hasFailedDependency s R')"
proof (induction rt rem R arbitrary: S rule: skipBlocked.induct)
  case (1 rt rem R)
  obtain rem1 R1 b where pass: "skip_pass (range_order (rt_range rt) (map fst rem)) rem R False = (rem1, R1, b)"
    by (metis prod_cases3)
  from "1.prems"(1) pass have res: "(if \<not> b then (rem1, R1) else skipBlocked rt rem1 R1) = (rem', R')"
    by (simp add: skipBlocked.simps [of rt rem R])
  from skip_pass_sound [OF pass "1.prems"(2-4)] obtain S1 where
    S1: "(rem1, R1) = skip_set S1 rem0 R0" "S1 \<subseteq> blocked rem0 R0" by blast
  show ?case
  proof (cases b)
    case True
    with res have "skipBlocked rt rem1 R1 = (rem', R')" by simp
    with True S1 "1.prems"(2) "1.IH" [OF pass [symmetric] refl] show ?thesis by simp
  next
    case False
    from "1.prems"(2,3) have "rem_ok rem" by (simp add: skip_set_def rem_ok_filter)
    with False res S1 skip_pass_unblocked [OF pass] show ?thesis
      by (auto simp: rem_ok_lookup)
  qed
qed

theorem skipBlocked_eq:
  assumes ok: "rem_ok rem" and disj: "rem_ids rem \<inter> dom R = {}"
  shows "skipBlocked rt rem R = skip_set (blocked rem R) rem R"
proof -
  obtain rem' R' where res: "skipBlocked rt rem R = (rem', R')" by fastforce
  have "(rem, R) = skip_set {} rem R" by (simp add: skip_set_def)
  from skipBlocked_skip_set [OF res ok this] obtain S where
    S: "(rem', R') = skip_set S rem R" "S \<subseteq> blocked rem R"
    and unblk: "\<forall>(k, s)\<in>set rem'. \<not> hasFailedDependency s R'" by auto
  have "k \<in> S" if "k \<in> blocked rem R" for k
    using that
  proof (induction rule: blocked.induct)
    case (direct k s)
    have "hasFailedDependency s R'" if "k \<notin> S"
    proof -
      from direct(2) obtain d r where d: "d \<in> set (step_DependsOn s)" "R d = Some r"
        "result_Status r \<noteq> Succeeded" by (auto simp: hasFailedDependency_iff)
      with disj S blocked_keys have "d \<notin> S" by (metis IntI domI empty_iff subsetD)
      with d S(1) show ?thesis by (auto simp: hasFailedDependency_iff skip_set_def)
    qed
    with direct(1) unblk S(1) show ?case by (auto simp: skip_set_def)
  next
    case (chain k s d)
    have "hasFailedDependency s R'"
      using chain(2,4) S(1) by (auto simp: hasFailedDependency_iff skip_set_def skipped_def)
    with chain(1) unblk S(1) show ?case by (auto simp: skip_set_def)
  qed
  with S have "S = blocked rem R" by blast
  with S(1) res show ?thesis by simp
qed

lemma skipBlocked_unblocked:
  "rem_ok rem \<Longrightarrow> skipBlocked rt rem R = (rem', R') \<Longrightarrow> \<forall>(k, s)\<in>set rem'. \<not> hasFailedDependency s R'"
  using skipBlocked_skip_set [of rt rem R rem' R' rem "{}" R] by (simp add: skip_set_def)

subsection \<open>Resume and the initial map\<close>

definition resumed :: "step_result list \<Rightarrow> string \<Rightarrow> step_result option" where
  "resumed ps k = find (\<lambda>r. result_ID r = k \<and> result_Status r = Succeeded) ps"

lemma resumed_Some: "resumed ps k = Some r \<Longrightarrow> r \<in> set ps \<and> result_ID r = k \<and> result_Status r = Succeeded"
  by (auto simp: resumed_def find_Some_iff)

lemma seed_resume_eq:
  "rem_ok rem \<Longrightarrow> seed_resume ps rem R =
     (filter (\<lambda>(k, s). resumed ps k = None) rem,
      \<lambda>k. if k \<in> rem_ids rem \<and> resumed ps k \<noteq> None then resumed ps k else R k)"
proof (induction ps rem R rule: seed_resume.induct)
  case (2 p ps rem R)
  show ?case
  proof (cases "result_Status p = Succeeded \<and> map_of rem (result_ID p) \<noteq> None")
    case True
    then have unfold: "seed_resume (p # ps) rem R =
        seed_resume ps (AList.delete (result_ID p) rem) (R(result_ID p \<mapsto> p))" by auto
    have "seed_resume (p # ps) rem R =
        (filter (\<lambda>(k, s). resumed ps k = None) (AList.delete (result_ID p) rem),
         \<lambda>k. if k \<in> rem_ids (AList.delete (result_ID p) rem) \<and> resumed ps k \<noteq> None then resumed ps k
             else (R(result_ID p \<mapsto> p)) k)"
      unfolding unfold using True "2.prems" by (intro "2.IH"(3)) (auto simp: rem_ok_delete)
    moreover have r: "resumed (p # ps) k = (if k = result_ID p then Some p else resumed ps k)" for k
      using True by (simp add: resumed_def)
    moreover have "filter (\<lambda>(k, s). resumed ps k = None) (AList.delete (result_ID p) rem)
        = filter (\<lambda>(k, s). resumed (p # ps) k = None) rem"
      unfolding delete_filter filter_filter by (intro filter_cong) (auto simp: r split: if_splits)
    moreover have "rem_ids (AList.delete (result_ID p) rem) = rem_ids rem - {result_ID p}"
      using keys_delete [of "result_ID p" rem] by (simp add: rem_ids_def)
    moreover have "result_ID p \<in> rem_ids rem"
      using True by (force simp: rem_ids_def dest: map_of_SomeD)
    ultimately show ?thesis by (auto simp: fun_eq_iff)
  next
    case False
    have new: "resumed (p # ps) k = resumed ps k" if "k \<in> rem_ids rem" for k
      using that False by (auto simp: resumed_def rem_ids_def map_of_eq_None_iff)
    have "seed_resume (p # ps) rem R = seed_resume ps rem R" using False by auto
    with False "2.IH"(1,2) "2.prems" have
      "seed_resume (p # ps) rem R = (filter (\<lambda>(k, s). resumed ps k = None) rem,
        \<lambda>k. if k \<in> rem_ids rem \<and> resumed ps k \<noteq> None then resumed ps k else R k)"
      by auto
    moreover have "filter (\<lambda>(k, s). resumed ps k = None) rem = filter (\<lambda>(k, s). resumed (p # ps) k = None) rem"
      using new by (intro filter_cong) (force simp: rem_ids_def)+
    ultimately show ?thesis using new by (auto simp: fun_eq_iff)
  qed
qed (simp add: resumed_def)

lemma update_fresh: "k \<notin> fst ` set al \<Longrightarrow> AList.update k v al = al @ [(k, v)]"
  by (induction al) auto

lemma all_remaining_eq:
  "distinct (map step_ID steps) \<Longrightarrow> all_remaining steps = map (\<lambda>s. (step_ID s, s)) steps"
proof -
  have "distinct (map step_ID steps) \<Longrightarrow> step_ID ` set steps \<inter> fst ` set al = {} \<Longrightarrow>
    fold (\<lambda>s rem. AList.update (step_ID s) s rem) steps al = al @ map (\<lambda>s. (step_ID s, s)) steps" for al
  proof (induction steps arbitrary: al)
    case (Cons s steps)
    then have "AList.update (step_ID s) s al = al @ [(step_ID s, s)]"
      by (intro update_fresh) auto
    with Cons show ?case by auto
  qed simp
  then show "distinct (map step_ID steps) \<Longrightarrow> ?thesis" by (simp add: all_remaining_def)
qed

section \<open>The invariant of the waves\<close>

text \<open>
  \<open>settled\<close> is what a result of step \<open>s\<close> means, relative to the results \<open>R\<close>: a resumed
  result is the stored one; a step whose dependencies all succeeded has the outcome of one
  execution, with a prompt rendered from results that were there before and include all its
  dependencies; any other step was skipped because a dependency did not succeed.
\<close>

definition settled ::
  "('ag, 'w) runtime \<Rightarrow> options \<Rightarrow> results \<Rightarrow> 'ag step \<Rightarrow> step_result \<Rightarrow> bool" where
  "settled rt opts R s r \<longleftrightarrow>
     (case resumed (Resume opts) (step_ID s) of
        Some prior \<Rightarrow> r = prior
      | None \<Rightarrow>
          if dependenciesSucceeded s R
          then \<exists>R0 v. R0 \<subseteq>\<^sub>m R \<and> step_ID s \<notin> dom R0 \<and> dependenciesSucceeded s R0 \<and>
                 r = fst (step_outcome rt opts s (renderPrompt (step_Prompt s) R0) v)
          else hasFailedDependency s R \<and> r = skipped (step_ID s))"

definition run_inv ::
  "('ag, 'w) runtime \<Rightarrow> options \<Rightarrow> 'ag step list \<Rightarrow> 'ag remaining \<Rightarrow> results \<Rightarrow> bool" where
  "run_inv rt opts steps rem R \<longleftrightarrow>
     rem_ok rem \<and> snd ` set rem \<subseteq> set steps \<and>
     dom R \<union> rem_ids rem = step_ids steps \<and> dom R \<inter> rem_ids rem = {} \<and>
     (\<forall>(k, s)\<in>set rem. resumed (Resume opts) k = None \<and> \<not> hasFailedDependency s R) \<and>
     (\<forall>s\<in>set steps. \<forall>r. R (step_ID s) = Some r \<longrightarrow> settled rt opts R s r)"

lemma map_le_lookup: "R \<subseteq>\<^sub>m R' \<Longrightarrow> R k = Some r \<Longrightarrow> R' k = Some r"
  by (auto simp: map_le_def dom_def)

lemma dependenciesSucceeded_mono: "dependenciesSucceeded s R \<Longrightarrow> R \<subseteq>\<^sub>m R' \<Longrightarrow> dependenciesSucceeded s R'"
  unfolding dependenciesSucceeded_iff by (blast dest: map_le_lookup)

lemma hasFailedDependency_mono: "hasFailedDependency s R \<Longrightarrow> R \<subseteq>\<^sub>m R' \<Longrightarrow> hasFailedDependency s R'"
  unfolding hasFailedDependency_iff by (blast dest: map_le_lookup)

lemma failed_not_succeeded: "hasFailedDependency s R \<Longrightarrow> \<not> dependenciesSucceeded s R"
  by (fastforce simp: hasFailedDependency_iff dependenciesSucceeded_iff)

lemma settled_mono:
  assumes "settled rt opts R s r" and le: "R \<subseteq>\<^sub>m R'"
  shows "settled rt opts R' s r"
proof (cases "resumed (Resume opts) (step_ID s)")
  case None
  show ?thesis
  proof (cases "dependenciesSucceeded s R")
    case True
    with None assms obtain R0 v where "R0 \<subseteq>\<^sub>m R" "step_ID s \<notin> dom R0" "dependenciesSucceeded s R0"
      "r = fst (step_outcome rt opts s (renderPrompt (step_Prompt s) R0) v)"
      by (auto simp: settled_def)
    with None dependenciesSucceeded_mono [OF True le] map_le_trans [OF _ le] show ?thesis
      unfolding settled_def by auto
  next
    case False
    with None assms have "hasFailedDependency s R'" "r = skipped (step_ID s)"
      by (auto simp: settled_def intro: hasFailedDependency_mono)
    with None show ?thesis by (simp add: settled_def failed_not_succeeded)
  qed
qed (use assms(1) in \<open>simp add: settled_def\<close>)

lemma blocked_failed: "k \<in> blocked rem R \<Longrightarrow> rem_ok rem \<Longrightarrow> dom R \<inter> rem_ids rem = {} \<Longrightarrow>
   (k, s) \<in> set rem \<Longrightarrow> hasFailedDependency s (snd (skip_set (blocked rem R) rem R))"
proof (induction rule: blocked.induct)
  case (direct k t)
  then have "s = t" by (auto dest: rem_ok_unique)
  moreover have "R \<subseteq>\<^sub>m snd (skip_set (blocked rem R) rem R)"
    using direct(4) blocked_keys [of rem R] by (auto simp: map_le_def skip_set_def)
  ultimately show ?case using direct(2) by (blast intro: hasFailedDependency_mono)
next
  case (chain k t d)
  then have "s = t" by (auto dest: rem_ok_unique)
  with chain(2,3) show ?case
    by (auto simp: hasFailedDependency_iff skip_set_def skipped_def)
qed

lemma rem_ids_filter_key: "rem_ids (filter (\<lambda>(k, s). k \<notin> S) rem) = rem_ids rem - S"
  by (force simp: rem_ids_def)

lemma map_le_skip_set:
  "dom R \<inter> rem_ids rem = {} \<Longrightarrow> R \<subseteq>\<^sub>m snd (skip_set (blocked rem R) rem R)"
  using blocked_keys [of rem R] by (auto simp: map_le_def skip_set_def)

lemma run_inv_entry:
  "run_inv rt opts steps rem R \<Longrightarrow> (k, s) \<in> set rem \<Longrightarrow>
   k = step_ID s \<and> s \<in> set steps \<and> k \<notin> dom R \<and> resumed (Resume opts) k = None"
proof -
  assume inv: "run_inv rt opts steps rem R" and mem: "(k, s) \<in> set rem"
  from inv have "\<forall>(k, s)\<in>set rem. k = step_ID s" "snd ` set rem \<subseteq> set steps"
    "dom R \<inter> rem_ids rem = {}" "\<forall>(k, s)\<in>set rem. resumed (Resume opts) k = None"
    unfolding run_inv_def rem_ok_def by blast+
  moreover from mem have "k \<in> rem_ids rem" "s \<in> snd ` set rem"
    unfolding rem_ids_def by (metis fst_conv snd_conv imageI)+
  ultimately show ?thesis using mem by blast
qed

text \<open>The effect of one wave on the results, before and after \<open>skipBlocked\<close>.\<close>

lemma wave_results:
  assumes inv: "run_inv rt opts steps rem R" and wave: "readyWave rt rem R = (ready, rem1)"
    and drain: "drain rt opts (render_wave ready R)
      (range_order (rt_arrival rt) (map step_ID ready)) R w = (R1, w1)"
  shows "rem1 = filter (\<lambda>(k, s). \<not> dependenciesSucceeded s R) rem"
    and "R \<subseteq>\<^sub>m R1" and "dom R1 = dom R \<union> step_ID ` set ready"
    and "set ready = {s \<in> snd ` set rem. dependenciesSucceeded s R}"
    and "\<forall>s\<in>set ready. \<exists>v. R1 (step_ID s) =
      Some (fst (step_outcome rt opts s (renderPrompt (step_Prompt s) R) v))"
proof -
  have ok: "rem_ok rem" using inv by (simp add: run_inv_def)
  from wave readyWave_eq [OF ok, of rt R]
  have eqs: "ready = sort_key step_ID (filter (\<lambda>s. dependenciesSucceeded s R) (map snd rem))"
    "rem1 = filter (\<lambda>(k, s). \<not> dependenciesSucceeded s R) rem" by simp_all
  show "rem1 = filter (\<lambda>(k, s). \<not> dependenciesSucceeded s R) rem" by (rule eqs)
  show ready: "set ready = {s \<in> snd ` set rem. dependenciesSucceeded s R}" by (simp add: eqs)
  have "mset ready = mset (filter (\<lambda>s. dependenciesSucceeded s R) (map snd rem))"
    by (simp add: eqs)
  then have "mset (map step_ID ready) = mset (map step_ID (filter (\<lambda>s. dependenciesSucceeded s R) (map snd rem)))"
    by (simp only: mset_map)
  moreover have "map step_ID (map snd rem) = map fst rem"
    using ok by (auto simp: rem_ok_def)
  then have "distinct (map step_ID (filter (\<lambda>s. dependenciesSucceeded s R) (map snd rem)))"
    using ok by (metis distinct_map_filter rem_ok_def)
  ultimately have dist: "distinct (map step_ID ready)" by (metis mset_eq_imp_distinct_iff)
  have ids: "\<forall>(j, s, rendered)\<in>set (render_wave ready R). j = step_ID s"
    by (auto simp: render_wave_def)
  have keys: "map fst (render_wave ready R) = map step_ID ready"
    by (simp add: render_wave_def comp_def)
  have look: "map_of (render_wave ready R) (step_ID s) = Some (s, renderPrompt (step_Prompt s) R)"
    if "s \<in> set ready" for s
    by (rule map_of_is_SomeI) (use that dist keys in \<open>simp, force simp: render_wave_def\<close>)
  show out: "\<forall>s\<in>set ready. \<exists>v. R1 (step_ID s) =
      Some (fst (step_outcome rt opts s (renderPrompt (step_Prompt s) R) v))"
    using drain_results [OF drain ids _ _ look] dist by auto
  have other: "R1 k = R k" if "k \<notin> step_ID ` set ready" for k
    using drain_other [OF drain ids, of k] that by simp
  have fresh: "step_ID s \<notin> dom R" if "s \<in> set ready" for s
    using that ready run_inv_entry [OF inv] rem_ok_entry [OF ok] by blast
  show "R \<subseteq>\<^sub>m R1"
    unfolding map_le_def
  proof
    fix k assume "k \<in> dom R"
    then have "k \<notin> step_ID ` set ready" using fresh by blast
    then show "R k = R1 k" by (simp add: other)
  qed
  show "dom R1 = dom R \<union> step_ID ` set ready"
  proof (rule set_eqI)
    fix k
    show "k \<in> dom R1 \<longleftrightarrow> k \<in> dom R \<union> step_ID ` set ready"
    proof (cases "k \<in> step_ID ` set ready")
      case True
      with out show ?thesis by force
    qed (simp add: other domIff)
  qed
qed

lemma wave_disjoint:
  assumes inv: "run_inv rt opts steps rem R" and wave: "readyWave rt rem R = (ready, rem1)"
    and drain: "drain rt opts (render_wave ready R)
      (range_order (rt_arrival rt) (map step_ID ready)) R w = (R1, w1)"
  shows "dom R1 \<inter> rem_ids rem1 = {}"
proof -
  note res = wave_results [OF inv wave drain]
  have ok: "rem_ok rem" using inv by (simp add: run_inv_def)
  have "k \<notin> dom R1" if "k \<in> rem_ids rem1" for k
  proof -
    from that obtain s where "(k, s) \<in> set rem1" by (auto simp: rem_ids_def)
    then have s: "(k, s) \<in> set rem" "\<not> dependenciesSucceeded s R" by (auto simp: res(1))
    have "k \<notin> step_ID ` set ready"
    proof
      assume "k \<in> step_ID ` set ready"
      then obtain t where "t \<in> set ready" "k = step_ID t" by blast
      with res(4) have "(k, t) \<in> set rem" "dependenciesSucceeded t R"
        using rem_ok_entry [OF ok] by auto
      with s rem_ok_unique [OF ok] show False by blast
    qed
    with run_inv_entry [OF inv s(1)] res(3) show ?thesis by auto
  qed
  then show ?thesis by blast
qed

lemma run_inv_wave:
  assumes inv: "run_inv rt opts steps rem R" and closed: "closed_graph steps"
    and wave: "readyWave rt rem R = (ready, rem1)"
    and drain: "drain rt opts (render_wave ready R)
      (range_order (rt_arrival rt) (map step_ID ready)) R w = (R1, w1)"
    and skip: "skipBlocked rt rem1 R1 = (rem2, R2)"
  shows "run_inv rt opts steps rem2 R2"
proof -
  note res = wave_results [OF inv wave drain]
  have ok: "rem_ok rem" using inv by (simp add: run_inv_def)
  then have ok1: "rem_ok rem1" unfolding res(1) by (rule rem_ok_filter)
  have inj: "s = t" if "s \<in> set steps" "t \<in> set steps" "step_ID s = step_ID t" for s t
    using closed that unfolding closed_graph_def by (meson distinct_map inj_onD)
  have ready: "s \<in> set steps \<and> (step_ID s, s) \<in> set rem \<and> dependenciesSucceeded s R
      \<and> step_ID s \<notin> dom R" if "s \<in> set ready" for s
    using that res(4) run_inv_entry [OF inv] rem_ok_entry [OF ok] by blast
  have rem1_sub: "set rem1 \<subseteq> set rem" by (auto simp: res(1))
  have disj1: "dom R1 \<inter> rem_ids rem1 = {}" by (rule wave_disjoint [OF inv wave drain])
  then have "rem_ids rem1 \<inter> dom R1 = {}" by blast
  from skipBlocked_eq [OF ok1 this, of rt] skip
  have rem2: "rem2 = filter (\<lambda>(k, s). k \<notin> blocked rem1 R1) rem1"
    and R2: "R2 = snd (skip_set (blocked rem1 R1) rem1 R1)" by (simp_all add: skip_set_def)
  have le2: "R1 \<subseteq>\<^sub>m R2" unfolding R2 by (rule map_le_skip_set [OF disj1])
  have le: "R \<subseteq>\<^sub>m R2" by (rule map_le_trans [OF res(2) le2])
  have dom2: "dom R2 = dom R1 \<union> blocked rem1 R1" by (auto simp: R2 skip_set_def split: if_splits)
  have "rem_ids rem = rem_ids rem1 \<union> step_ID ` set ready"
  proof (rule set_eqI)
    fix k
    show "k \<in> rem_ids rem \<longleftrightarrow> k \<in> rem_ids rem1 \<union> step_ID ` set ready"
    proof
      assume "k \<in> rem_ids rem"
      then obtain s where s: "(k, s) \<in> set rem" by (auto simp: rem_ids_def)
      then have "s \<in> snd ` set rem" "k = step_ID s" using run_inv_entry [OF inv] by force+
      with s res(1,4) show "k \<in> rem_ids rem1 \<union> step_ID ` set ready"
        by (cases "dependenciesSucceeded s R") (force simp: rem_ids_def)+
    next
      assume "k \<in> rem_ids rem1 \<union> step_ID ` set ready"
      then show "k \<in> rem_ids rem"
        using rem1_sub ready by (force simp: rem_ids_def)
    qed
  qed
  with inv res(3) have covered: "dom R1 \<union> rem_ids rem1 = step_ids steps"
    by (simp add: run_inv_def Un_ac)
  have ids2: "rem_ids rem2 = rem_ids rem1 - blocked rem1 R1"
    unfolding rem2 by (rule rem_ids_filter_key)
  have "dom R2 \<union> rem_ids rem2 = step_ids steps"
    using covered blocked_keys [of rem1 R1] dom2 ids2 by blast
  moreover have "dom R2 \<inter> rem_ids rem2 = {}"
    using disj1 dom2 ids2 by blast
  moreover have "settled rt opts R2 s r" if s: "s \<in> set steps" and r: "R2 (step_ID s) = Some r" for s r
  proof -
    consider "step_ID s \<in> dom R" | "step_ID s \<notin> dom R" "step_ID s \<in> dom R1"
      | "step_ID s \<in> blocked rem1 R1"
      using r dom2 by blast
    then show ?thesis
    proof cases
      case 1
      then obtain r' where "R (step_ID s) = Some r'" by blast
      with inv s have "settled rt opts R s r'" by (auto simp: run_inv_def)
      moreover have "r' = r" using map_le_lookup [OF le \<open>R (step_ID s) = Some r'\<close>] r by simp
      ultimately show ?thesis using settled_mono [OF _ le] by simp
    next
      case 2
      then have "step_ID s \<in> step_ID ` set ready" unfolding res(3) by blast
      then obtain t where "t \<in> set ready" "step_ID t = step_ID s" by force
      then have t: "s \<in> set ready" using ready s inj by metis
      with res(5) obtain v where
        "R1 (step_ID s) = Some (fst (step_outcome rt opts s (renderPrompt (step_Prompt s) R) v))" by blast
      then have "r = fst (step_outcome rt opts s (renderPrompt (step_Prompt s) R) v)"
        using map_le_lookup [OF le2] r by fastforce
      moreover have "resumed (Resume opts) (step_ID s) = None"
        using ready [OF t] run_inv_entry [OF inv] by blast
      ultimately show ?thesis
        using ready [OF t] le dependenciesSucceeded_mono [OF _ le] unfolding settled_def by auto
    next
      case 3
      then obtain t where "(step_ID s, t) \<in> set rem1" using blocked_keys by (force simp: rem_ids_def)
      then have mem: "(step_ID s, s) \<in> set rem1"
        using run_inv_entry [OF inv] rem1_sub s inj by (metis subsetD)
      have "hasFailedDependency s R2"
        unfolding R2 by (rule blocked_failed [OF 3 ok1 disj1 mem])
      moreover have "r = skipped (step_ID s)" using r 3 by (simp add: R2 skip_set_def)
      moreover have "resumed (Resume opts) (step_ID s) = None"
        using mem rem1_sub run_inv_entry [OF inv] by blast
      ultimately show ?thesis by (simp add: settled_def failed_not_succeeded)
    qed
  qed
  moreover have "rem_ok rem2" unfolding rem2 by (rule rem_ok_filter [OF ok1])
  moreover have "set rem2 \<subseteq> set rem" using rem1_sub by (auto simp: rem2)
  ultimately show ?thesis
    using skipBlocked_unblocked [OF ok1 skip] run_inv_entry [OF inv] unfolding run_inv_def by fastforce
qed

section \<open>Completeness of the loop\<close>

text \<open>
  In an acyclic workflow a remaining step that is minimal among the remaining steps has all
  its dependencies settled, none of them failed: the wave is never empty.
\<close>

lemma progress:
  assumes inv: "run_inv rt opts steps rem R" and closed: "closed_graph steps"
    and acyclic: "acyclic (dep_edges steps)" and "rem \<noteq> []"
  shows "\<exists>s\<in>snd ` set rem. dependenciesSucceeded s R"
proof -
  have "wf (dep_edges steps)" using acyclic by (simp add: finite_acyclic_wf)
  moreover from \<open>rem \<noteq> []\<close> obtain k where "k \<in> rem_ids rem" by (cases rem) (auto simp: rem_ids_def)
  ultimately obtain m where m: "m \<in> rem_ids rem"
    and least: "\<And>d. (d, m) \<in> dep_edges steps \<Longrightarrow> d \<notin> rem_ids rem"
    by (metis wfE_min)
  from m obtain s where s: "(m, s) \<in> set rem" by (auto simp: rem_ids_def)
  with run_inv_entry [OF inv] have ms: "m = step_ID s" "s \<in> set steps" by blast+
  have "\<exists>r. R d = Some r \<and> result_Status r = Succeeded" if d: "d \<in> set (step_DependsOn s)" for d
  proof -
    have "d \<in> step_ids steps" using closed ms d by (auto simp: closed_graph_def)
    moreover have "d \<notin> rem_ids rem" using least ms d by (auto simp: dep_edges_def)
    ultimately have "d \<in> dom R" using inv by (auto simp: run_inv_def)
    then obtain r where "R d = Some r" by blast
    moreover have "\<not> hasFailedDependency s R" using inv s by (auto simp: run_inv_def)
    ultimately show ?thesis using d by (auto simp: hasFailedDependency_iff)
  qed
  then have "dependenciesSucceeded s R" by (simp add: dependenciesSucceeded_iff)
  with s show ?thesis by force
qed

lemma run_loop_complete:
  assumes closed: "closed_graph steps" and acyclic: "acyclic (dep_edges steps)"
  shows "run_inv rt opts steps rem R \<Longrightarrow> run_loop rt opts rem R w = (R', w') \<Longrightarrow>
    run_inv rt opts steps [] R'"
proof (induction rt opts rem R w rule: run_loop.induct)
  case (1 rt opts rem R w)
  show ?case
  proof (cases "rem = []")
    case True
    with 1 show ?thesis by (simp add: run_loop.simps)
  next
    case False
    obtain ready rem1 where wave: "readyWave rt rem R = (ready, rem1)" by fastforce
    obtain R1 w1 where drain: "drain rt opts (render_wave ready R)
        (range_order (rt_arrival rt) (map step_ID ready)) R w = (R1, w1)" by fastforce
    obtain rem2 R2 where skip: "skipBlocked rt rem1 R1 = (rem2, R2)" by fastforce
    have "ready \<noteq> []"
      using progress [OF "1.prems"(1) closed acyclic False] wave_results(4) [OF "1.prems"(1) wave drain]
      by auto
    moreover from this "1.prems"(2) False wave drain skip
    have "run_loop rt opts rem2 R2 w1 = (R', w')"
      by (simp add: run_loop.simps [of rt opts rem R w])
    moreover have "run_inv rt opts steps rem2 R2"
      by (rule run_inv_wave [OF "1.prems"(1) closed wave drain skip])
    ultimately show ?thesis
      using "1.IH" [OF False wave [symmetric] _ drain [symmetric] skip [symmetric]] by blast
  qed
qed

definition result_of :: "results \<Rightarrow> 'ag step \<Rightarrow> step_result" where
  "result_of R s = (case R (step_ID s) of None \<Rightarrow> not_run (step_ID s) | Some r \<Rightarrow> r)"

lemma collect_eq:
  "collect ss R ordered err =
     (ordered @ map (result_of R) ss,
      if err \<noteq> None then err
      else map_option (\<lambda>s. \<lparr>we_StepID = step_ID s, we_Err = Errorf (result_Error (result_of R s))\<rparr>)
             (find (\<lambda>s. result_Status (result_of R s) = Failed) ss))"
proof (induction ss arbitrary: ordered err)
  case (Cons s ss)
  then show ?case by (cases err) (simp_all add: Let_def result_of_def)
qed simp

lemma run_inv_start:
  assumes "closed_graph steps" and "seed_resume (Resume opts) (all_remaining steps) Map.empty = (rem, R)"
  shows "run_inv rt opts steps rem R"
proof -
  let ?all = "map (\<lambda>s. (step_ID s, s)) steps"
  have dist: "distinct (map step_ID steps)" using assms(1) by (simp add: closed_graph_def)
  have ok: "rem_ok ?all" using dist by (auto simp: rem_ok_def comp_def)
  have ids: "rem_ids ?all = step_ids steps" by (force simp: rem_ids_def step_ids_def)
  from assms(2) have rem: "rem = filter (\<lambda>(k, s). resumed (Resume opts) k = None) ?all"
    and R: "R = (\<lambda>k. if k \<in> step_ids steps \<and> resumed (Resume opts) k \<noteq> None
                      then resumed (Resume opts) k else None)"
    by (simp_all add: all_remaining_eq [OF dist] seed_resume_eq [OF ok] ids)
  have rem_ids: "rem_ids rem = {k \<in> step_ids steps. resumed (Resume opts) k = None}"
    by (force simp: rem rem_ids_def step_ids_def)
  have domR: "dom R = {k \<in> step_ids steps. resumed (Resume opts) k \<noteq> None}"
    by (auto simp: R split: if_splits)
  have succ: "R k = Some r \<Longrightarrow> result_Status r = Succeeded" for k r
    by (auto simp: R dest: resumed_Some split: if_splits)
  have "rem_ok rem" unfolding rem by (rule rem_ok_filter [OF ok])
  moreover have "snd ` set rem \<subseteq> set steps" by (auto simp: rem)
  moreover have "dom R \<union> rem_ids rem = step_ids steps" "dom R \<inter> rem_ids rem = {}"
    unfolding domR rem_ids by auto
  moreover have "\<not> hasFailedDependency s R" for s :: "'a step"
    using succ by (auto simp: hasFailedDependency_iff)
  then have "\<forall>(k, s)\<in>set rem. resumed (Resume opts) k = None \<and> \<not> hasFailedDependency s R"
    by (simp add: rem)
  moreover have "\<forall>s\<in>set steps. \<forall>r. R (step_ID s) = Some r \<longrightarrow> settled rt opts R s r"
    by (auto simp: settled_def R split: if_splits)
  ultimately show ?thesis unfolding run_inv_def by (intro conjI)
qed

text \<open>The results of a run of a valid workflow, as the invariant gives them.\<close>

lemma Run_results:
  assumes valid: "valid_steps (wf_steps plan)" and run: "Run rt plan w = ((ordered, err), w')"
  obtains R where "run_inv rt (wf_options plan) (wf_steps plan) [] R"
    "ordered = map (result_of R) (wf_steps plan)"
    "err = map_option (\<lambda>s. \<lparr>we_StepID = step_ID s, we_Err = Errorf (result_Error (result_of R s))\<rparr>)
             (find (\<lambda>s. result_Status (result_of R s) = Failed) (wf_steps plan))"
proof -
  have closed: "closed_graph (wf_steps plan)" and acyclic: "acyclic (dep_edges (wf_steps plan))"
    using valid by (simp_all add: valid_steps_def)
  obtain rem R0 where seed: "seed_resume (Resume (wf_options plan)) (all_remaining (wf_steps plan)) Map.empty
      = (rem, R0)" by fastforce
  obtain R w1 where loop: "run_loop rt (wf_options plan) rem R0 w = (R, w1)" by fastforce
  have "run_inv rt (wf_options plan) (wf_steps plan) [] R"
    by (rule run_loop_complete [OF closed acyclic run_inv_start [OF closed seed] loop])
  with run seed loop that show thesis by (simp add: Run_def collect_eq)
qed

lemma result_of_in:
  assumes "run_inv rt opts steps [] R" and "s \<in> set steps"
  shows "R (step_ID s) = Some (result_of R s)" and "settled rt opts R s (result_of R s)"
    and "result_ID (result_of R s) = step_ID s"
proof -
  from assms have "step_ID s \<in> dom R" by (auto simp: run_inv_def step_ids_def rem_ids_def)
  then show look: "R (step_ID s) = Some (result_of R s)" by (auto simp: result_of_def)
  with assms show settled: "settled rt opts R s (result_of R s)" by (auto simp: run_inv_def)
  then show "result_ID (result_of R s) = step_ID s"
    by (auto simp: settled_def skipped_def step_outcome_ID [OF surjective_pairing]
        dest: resumed_Some split: option.splits if_splits)
qed

section \<open>Independence of Go's unspecified orders\<close>

lemma readyWave_range: "rem_ok rem \<Longrightarrow> readyWave rt rem R = readyWave rt' rem R"
  by (simp add: readyWave_eq)

lemma step_outcome_pure:
  assumes "\<And>ag p w w'. fst (rt_call rt ag p w) = fst (rt_call rt ag p w')"
    and "\<And>d w w'. fst (rt_sleep rt d w) = fst (rt_sleep rt d w')"
  shows "fst (step_outcome rt opts s rendered w) = fst (step_outcome rt opts s rendered v)"
proof (cases rendered)
  case (Inr p)
  then show ?thesis
    using runStep_pure [of rt opts "step_Agent s" p "started (step_ID s)" w v] assms
    by (simp add: step_outcome_def)
qed (simp add: step_outcome_def)

lemma runStep_orders:
  "runStep (rt\<lparr>rt_range := f, rt_arrival := g\<rparr>) opts ag p r w = runStep rt opts ag p r w"
proof (induction "nat (MaxRetries opts - result_Attempts r)" arbitrary: r w rule: less_induct)
  case less
  then show ?case
    by (auto simp: runStep.simps [of _ opts ag p r w] Let_def split: prod.split sum.split option.split)
qed

lemma step_outcome_orders:
  "step_outcome (rt\<lparr>rt_range := f, rt_arrival := g\<rparr>) opts s p w = step_outcome rt opts s p w"
  by (simp add: step_outcome_def runStep_orders split: sum.split)

text \<open>
  Two drains of the same wave agree on the results when each step's outcome does not depend
  on the world.
\<close>

lemma drain_pure:
  assumes "drain rt opts (render_wave ready R) (range_order f (map step_ID ready)) R w = (R1, w1)"
    and "drain rt' opts (render_wave ready R) (range_order g (map step_ID ready)) R w' = (R1', w1')"
    and dist: "distinct (map step_ID ready)"
    and pure: "\<And>s p v v'. fst (step_outcome rt opts s p v) = fst (step_outcome rt' opts s p v')"
  shows "R1 = R1'"
proof
  fix k
  have ids: "\<forall>(j, s, rendered)\<in>set (render_wave ready R). j = step_ID s"
    by (auto simp: render_wave_def)
  show "R1 k = R1' k"
  proof (cases "k \<in> set (map step_ID ready)")
    case True
    then obtain s where s: "s \<in> set ready" "k = step_ID s" by auto
    have look: "map_of (render_wave ready R) k = Some (s, renderPrompt (step_Prompt s) R)"
      using s dist by (intro map_of_is_SomeI) (auto simp: render_wave_def comp_def)
    have ks: "distinct (range_order f (map step_ID ready))" "k \<in> set (range_order f (map step_ID ready))"
      "distinct (range_order g (map step_ID ready))" "k \<in> set (range_order g (map step_ID ready))"
      using True dist by simp_all
    from drain_results [OF assms(1) ids ks(1,2) look] drain_results [OF assms(2) ids ks(3,4) look]
    show ?thesis using pure by metis
  next
    case False
    with drain_other [OF assms(1) ids, of k] drain_other [OF assms(2) ids, of k] show ?thesis by simp
  qed
qed

lemma run_loop_orders:
  assumes closed: "closed_graph steps"
    and pure: "\<And>s p v v'. fst (step_outcome rt opts s p v) = fst (step_outcome rt opts s p v')"
  shows "run_inv rt opts steps rem R \<Longrightarrow>
    fst (run_loop rt opts rem R w) = fst (run_loop (rt\<lparr>rt_range := f, rt_arrival := g\<rparr>) opts rem R v)"
proof (induction "length rem" arbitrary: rem R w v rule: less_induct)
  case less
  let ?rt = "rt\<lparr>rt_range := f, rt_arrival := g\<rparr>"
  show ?case
  proof (cases "rem = []")
    case True
    then show ?thesis by (simp add: run_loop.simps)
  next
    case False
    have ok: "rem_ok rem" using less.prems by (simp add: run_inv_def)
    obtain ready rem1 where wave: "readyWave rt rem R = (ready, rem1)" by fastforce
    have wave': "readyWave ?rt rem R = (ready, rem1)" using readyWave_range [OF ok] wave by metis
    obtain R1 w1 where drain: "drain rt opts (render_wave ready R)
        (range_order (rt_arrival rt) (map step_ID ready)) R w = (R1, w1)" by fastforce
    obtain R1' v1 where drain': "drain ?rt opts (render_wave ready R)
        (range_order (rt_arrival ?rt) (map step_ID ready)) R v = (R1', v1)" by fastforce
    have "map step_ID (map snd rem) = map fst rem" using ok by (auto simp: rem_ok_def)
    then have "distinct (map step_ID (filter (\<lambda>s. dependenciesSucceeded s R) (map snd rem)))"
      using ok by (metis distinct_map_filter rem_ok_def)
    moreover have "mset ready = mset (filter (\<lambda>s. dependenciesSucceeded s R) (map snd rem))"
      using wave readyWave_eq [OF ok, of rt R] by auto
    then have "mset (map step_ID ready) =
        mset (map step_ID (filter (\<lambda>s. dependenciesSucceeded s R) (map snd rem)))"
      by (simp only: mset_map)
    ultimately have dist: "distinct (map step_ID ready)" by (metis mset_eq_imp_distinct_iff)
    have "fst (step_outcome rt opts s p a) = fst (step_outcome ?rt opts s p b)" for s p a b
      unfolding step_outcome_orders by (rule pure)
    then have R1: "R1' = R1" using drain_pure [OF drain drain' dist] by simp
    obtain rem2 R2 where skip: "skipBlocked rt rem1 R1 = (rem2, R2)" by fastforce
    have next_inv: "run_inv rt opts steps rem2 R2"
      by (rule run_inv_wave [OF less.prems closed wave drain skip])
    have ok1: "rem_ok rem1" unfolding wave_results(1) [OF less.prems wave drain]
      by (rule rem_ok_filter [OF ok])
    have disj: "rem_ids rem1 \<inter> dom R1 = {}"
      using wave_disjoint [OF less.prems wave drain] by blast
    have skip': "skipBlocked ?rt rem1 R1 = (rem2, R2)"
      using skip skipBlocked_eq [OF ok1 disj, of rt] skipBlocked_eq [OF ok1 disj, of ?rt] by simp
    show ?thesis
    proof (cases "ready = []")
      case True
      with False wave wave' show ?thesis
        by (simp add: run_loop.simps [of rt opts rem R w] run_loop.simps [of ?rt opts rem R v])
    next
      case nonempty: False
      have shorter: "length rem2 < length rem"
        using skipBlocked_length [OF skip] readyWave_length [OF wave] nonempty by (cases ready) auto
      from False nonempty wave wave' drain drain' skip skip' R1 less.hyps [OF shorter next_inv]
      show ?thesis
        by (simp add: run_loop.simps [of rt opts rem R w] run_loop.simps [of ?rt opts rem R v])
    qed
  qed
qed

section \<open>Effects on the world\<close>

text \<open>
  A fact about the world that the agent calls of the executed steps, the timers and the
  notifications keep, holds after the run. Only steps that are not resumed are executed.
\<close>

lemma run_loop_world:
  assumes call: "\<And>s p w. P s \<Longrightarrow> I w \<Longrightarrow> I (snd (rt_call rt (step_Agent s) p w))"
    and sleep: "\<And>d w. I w \<Longrightarrow> I (snd (rt_sleep rt d w))"
    and notify: "\<And>s r w. P s \<Longrightarrow> I w \<Longrightarrow> result_ID r = step_ID s \<Longrightarrow>
      result_Status r = Succeeded \<or> result_Status r = Failed \<Longrightarrow> I (rt_notify rt r w)"
  shows "run_loop rt opts rem R w = (R', w') \<Longrightarrow> rem_ok rem \<Longrightarrow> \<forall>s\<in>snd ` set rem. P s \<Longrightarrow> I w \<Longrightarrow> I w'"
proof (induction "length rem" arbitrary: rem R w rule: less_induct)
  case less
  obtain ready rem1 where wave: "readyWave rt rem R = (ready, rem1)" by fastforce
  obtain R1 w1 where drain: "drain rt opts (render_wave ready R)
      (range_order (rt_arrival rt) (map step_ID ready)) R w = (R1, w1)" by fastforce
  obtain rem2 R2 where skip: "skipBlocked rt rem1 R1 = (rem2, R2)" by fastforce
  show ?case
  proof (cases "rem = [] \<or> ready = []")
    case True
    with less.prems wave show ?thesis by (auto simp: run_loop.simps [of rt opts rem R w] split: if_splits)
  next
    case False
    from wave readyWave_eq [OF less.prems(2), of rt R]
    have ready: "set ready \<subseteq> snd ` set rem" and rem1: "set rem1 \<subseteq> set rem" "rem_ok rem1"
      using less.prems(2) by (auto simp: rem_ok_filter)
    have "\<forall>(k, s, rendered)\<in>set (render_wave ready R). P s"
      using ready less.prems(3) by (auto simp: render_wave_def)
    from drain_world [OF drain less.prems(4) this call sleep notify] have "I w1" .
    moreover from skipBlocked_skip_set [OF skip rem1(2), of "{}" R1]
    obtain S where "rem2 = filter (\<lambda>(k, s). k \<notin> S) rem1" by (auto simp: skip_set_def)
    then have "rem_ok rem2" "\<forall>s\<in>snd ` set rem2. P s"
      using rem1 less.prems(3) by (simp add: rem_ok_filter, force)
    moreover have "length rem2 < length rem"
      using skipBlocked_length [OF skip] readyWave_length [OF wave] False by (cases ready) auto
    moreover have "run_loop rt opts rem2 R2 w1 = (R', w')"
      using less.prems(1) False wave drain skip by (simp add: run_loop.simps [of rt opts rem R w])
    ultimately show ?thesis using less.hyps by blast
  qed
qed

lemma Run_world:
  assumes run: "Run rt plan w = (out, w')" and dist: "distinct (map step_ID (wf_steps plan))"
    and "I w"
    and call: "\<And>s p w. s \<in> set (wf_steps plan) \<Longrightarrow> resumed (Resume (wf_options plan)) (step_ID s) = None \<Longrightarrow>
      I w \<Longrightarrow> I (snd (rt_call rt (step_Agent s) p w))"
    and sleep: "\<And>d w. I w \<Longrightarrow> I (snd (rt_sleep rt d w))"
    and notify: "\<And>s r w. s \<in> set (wf_steps plan) \<Longrightarrow>
      resumed (Resume (wf_options plan)) (step_ID s) = None \<Longrightarrow> I w \<Longrightarrow> result_ID r = step_ID s \<Longrightarrow>
      result_Status r = Succeeded \<or> result_Status r = Failed \<Longrightarrow> I (rt_notify rt r w)"
  shows "I w'"
proof -
  let ?P = "\<lambda>s. s \<in> set (wf_steps plan) \<and> resumed (Resume (wf_options plan)) (step_ID s) = None"
  let ?all = "map (\<lambda>s. (step_ID s, s)) (wf_steps plan)"
  have ok: "rem_ok ?all" using dist by (auto simp: rem_ok_def comp_def)
  obtain rem R where seed: "seed_resume (Resume (wf_options plan)) (all_remaining (wf_steps plan)) Map.empty
      = (rem, R)" by fastforce
  then have rem: "rem = filter (\<lambda>(k, s). resumed (Resume (wf_options plan)) k = None) ?all"
    by (simp add: all_remaining_eq [OF dist] seed_resume_eq [OF ok])
  obtain R' w1 where loop: "run_loop rt (wf_options plan) rem R w = (R', w1)" by fastforce
  have "w1 = w'" using run seed loop by (simp add: Run_def)
  moreover have "rem_ok rem" unfolding rem by (rule rem_ok_filter [OF ok])
  moreover have "\<forall>s\<in>snd ` set rem. ?P s" by (auto simp: rem)
  ultimately show ?thesis
    using run_loop_world [of ?P I rt, OF _ sleep _ loop] call notify \<open>I w\<close> by blast
qed

end
