(* ===== verification/Workflow_Properties.thy ===== *)
theory Workflow_Properties
  imports Workflow_Spec
begin

text \<open>
  The properties of a run: every step of an accepted workflow is settled, the reported
  error, the skip cascade, the retry policy, independence of Go's unspecified orders, and
  resumption. They are stated for the plans \<open>NewWorkflow\<close> returns.
\<close>

section \<open>A plan for the witnesses\<close>

text \<open>
  Step \<open>b\<close> depends on \<open>a\<close>, step \<open>c\<close> on \<open>b\<close>; the agent \<open>True\<close> answers, the agent \<open>False\<close>
  fails. The world counts the calls.
\<close>

definition demo_step :: "string \<Rightarrow> bool \<Rightarrow> string \<Rightarrow> string list \<Rightarrow> bool step" where
  "demo_step i ok p ds = \<lparr>step_ID = i, step_Agent = Some ok, step_Prompt = p, step_DependsOn = ds\<rparr>"

definition demo_steps :: "bool step list" where
  "demo_steps = [demo_step ''a'' True ''x'' [], demo_step ''b'' False ''{{steps.a.output}}'' [''a''],
                 demo_step ''c'' True ''z'' [''b'']]"

definition demo_options :: options where
  "demo_options = \<lparr>MaxRetries = 1, RetryDelay = 5, Resume = []\<rparr>"

definition demo_runtime :: "(bool, (bool option \<times> string) list) runtime" where
  "demo_runtime =
     \<lparr>rt_call = (\<lambda>ag p w. (if ag = Some True then Inr (p @ ''!'') else Inl (Errorf ''boom''), w @ [(ag, p)])),
      rt_sleep = (\<lambda>d w. (None, w)), rt_notify = (\<lambda>r w. w), rt_range = rev, rt_arrival = (\<lambda>ks. ks)\<rparr>"

definition demo_plan :: "bool workflow" where
  "demo_plan = \<lparr>wf_steps = demo_steps, wf_options = demo_options\<rparr>"

lemmas demo_defs = demo_plan_def demo_steps_def demo_options_def demo_step_def demo_runtime_def

lemma demo_accepted: "NewWorkflow (\<lambda>ks. ks) demo_steps demo_options = Inr demo_plan"
  by (simp add: demo_defs NewWorkflow_def hasCycle_def range_order_def count_of_def children_of_def)

lemma demo_run:
  "Run demo_runtime demo_plan [] =
     (([\<lparr>result_ID = ''a'', result_Status = Succeeded, result_Attempts = 0, result_Output = ''x!'', result_Error = []\<rparr>,
        \<lparr>result_ID = ''b'', result_Status = Failed, result_Attempts = 1, result_Output = [], result_Error = ''boom''\<rparr>,
        \<lparr>result_ID = ''c'', result_Status = Skipped, result_Attempts = 0, result_Output = [], result_Error = ''dependency failed''\<rparr>],
       Some \<lparr>we_StepID = ''b'', we_Err = Errorf ''boom''\<rparr>),
      [(Some True, ''x''), (Some False, ''x!''), (Some False, ''x!'')])"
  by code_simp

section \<open>Results\<close>

definition results_map :: "step_result list \<Rightarrow> results" where
  "results_map rs = map_of (map (\<lambda>r. (result_ID r, r)) rs)"

lemma results_map_run:
  assumes inv: "run_inv rt opts steps [] R" and dist: "distinct (map step_ID steps)"
  shows "results_map (map (result_of R) steps) = R"
proof
  fix k
  have eq: "results_map (map (result_of R) steps) = map_of (map (\<lambda>s. (step_ID s, result_of R s)) steps)"
    unfolding results_map_def map_map comp_def using result_of_in(3) [OF inv]
    by (intro arg_cong [where f = map_of] map_cong) auto
  show "results_map (map (result_of R) steps) k = R k"
  proof (cases "k \<in> step_ids steps")
    case True
    then obtain s where s: "s \<in> set steps" "k = step_ID s" by (auto simp: step_ids_def)
    have "map_of (map (\<lambda>s. (step_ID s, result_of R s)) steps) k = Some (result_of R s)"
      by (rule map_of_is_SomeI) (use s dist in \<open>auto simp: comp_def\<close>)
    with s result_of_in(1) [OF inv s(1)] eq show ?thesis by simp
  next
    case False
    moreover from this have "k \<notin> dom R" using inv by (simp add: run_inv_def rem_ids_def)
    ultimately show ?thesis unfolding eq by (auto simp: domIff map_of_eq_None_iff step_ids_def)
  qed
qed

lemma accepted_run:
  assumes "NewWorkflow ord steps opts = Inr plan" and "Run rt plan w = ((ordered, err), w')"
  obtains R where "run_inv rt opts steps [] R" "ordered = map (result_of R) steps"
    "results_map ordered = R" "valid_steps steps" "closed_graph steps" "wf_steps plan = steps"
    "wf_options plan = opts"
    "err = map_option (\<lambda>s. \<lparr>we_StepID = step_ID s, we_Err = Errorf (result_Error (result_of R s))\<rparr>)
             (find (\<lambda>s. result_Status (result_of R s) = Failed) steps)"
proof -
  from assms(1) have valid: "valid_steps steps" and plan: "plan = \<lparr>wf_steps = steps, wf_options = opts\<rparr>"
    by (simp_all add: NewWorkflow_accepts)
  then have valid': "valid_steps (wf_steps plan)" by simp
  have closed: "closed_graph steps" and dist: "distinct (map step_ID steps)"
    using valid by (simp_all add: valid_steps_def closed_graph_def)
  obtain R where R: "run_inv rt (wf_options plan) (wf_steps plan) [] R"
    "ordered = map (result_of R) (wf_steps plan)"
    "err = map_option (\<lambda>s. \<lparr>we_StepID = step_ID s, we_Err = Errorf (result_Error (result_of R s))\<rparr>)
             (find (\<lambda>s. result_Status (result_of R s) = Failed) (wf_steps plan))"
    by (rule Run_results [OF valid' assms(2)])
  have "results_map ordered = R" using R(1,2) plan results_map_run [OF _ dist] by simp
  with R plan valid closed show thesis by (intro that [of R]) simp_all
qed

section \<open>Properties\<close>

text \<open>
  C6: a run settles every step of an accepted workflow. The results come in declaration
  order, one per step; a step that succeeded in an earlier attempt keeps its stored result;
  a step whose dependencies all succeeded carries the outcome of one execution (failed
  without a call when its prompt could not be rendered); every other step was skipped
  because a dependency did not succeed. No step is left with "workflow did not run".
\<close>

theorem Run_settles_every_step:
  assumes "NewWorkflow ord steps opts = Inr plan" and "Run rt plan w = ((ordered, err), w')"
  shows "map result_ID ordered = map step_ID steps \<and>
    (\<forall>(s, r)\<in>set (zip steps ordered). settled rt opts (results_map ordered) s r)"
proof -
  obtain R where R: "run_inv rt opts steps [] R" "ordered = map (result_of R) steps"
    "results_map ordered = R" by (rule accepted_run [OF assms])
  then show ?thesis
    using result_of_in(2,3) [OF R(1)] by (auto simp: zip_map2 zip_same_conv_map)
qed

theorem Run_settles_every_step_witness:
  "settled demo_runtime demo_options
     (results_map (fst (fst (Run demo_runtime demo_plan []))))
     (demo_step ''c'' True ''z'' [''b''])
     \<lparr>result_ID = ''c'', result_Status = Skipped, result_Attempts = 0, result_Output = [],
      result_Error = ''dependency failed''\<rparr>"
  using Run_settles_every_step [OF demo_accepted demo_run] unfolding demo_run
  by (simp add: demo_steps_def)

text \<open>
  C32: the error of a run. A run of an accepted workflow reports an error exactly when some
  step failed; the error names the first failed step in declaration order and carries that
  step's message. The results are returned in both cases.
\<close>

theorem Run_error_names_first_failure:
  assumes "NewWorkflow ord steps opts = Inr plan" and "Run rt plan w = ((ordered, err), w')"
  shows "case err of
      None \<Rightarrow> list_all (\<lambda>r. result_Status r \<noteq> Failed) ordered
    | Some e \<Rightarrow> \<exists>before r after. ordered = before @ r # after \<and>
        list_all (\<lambda>q. result_Status q \<noteq> Failed) before \<and> result_Status r = Failed \<and>
        we_StepID e = result_ID r \<and> we_Err e = Errorf (result_Error r)"
proof -
  obtain R where R: "run_inv rt opts steps [] R" "ordered = map (result_of R) steps"
    and err: "err = map_option (\<lambda>s. \<lparr>we_StepID = step_ID s, we_Err = Errorf (result_Error (result_of R s))\<rparr>)
             (find (\<lambda>s. result_Status (result_of R s) = Failed) steps)"
    by (rule accepted_run [OF assms])
  show ?thesis
  proof (cases "find (\<lambda>s. result_Status (result_of R s) = Failed) steps")
    case None
    with R err show ?thesis by (auto simp: find_None_iff list_all_iff)
  next
    case (Some s)
    then obtain i where i: "i < length steps" "s = steps ! i" "result_Status (result_of R s) = Failed"
      "\<forall>j<i. result_Status (result_of R (steps ! j)) \<noteq> Failed"
      by (auto simp: find_Some_iff)
    let ?before = "map (result_of R) (take i steps)" and ?after = "map (result_of R) (drop (Suc i) steps)"
    have "ordered = ?before @ result_of R s # ?after"
      using i R(2) by (metis id_take_nth_drop list.simps(9) map_append)
    moreover have "list_all (\<lambda>q. result_Status q \<noteq> Failed) ?before"
      using i by (auto simp: list_all_iff in_set_conv_nth)
    moreover have "result_ID (result_of R s) = step_ID s"
      using i result_of_in(3) [OF R(1)] by auto
    ultimately have "\<exists>before r after. ordered = before @ r # after \<and>
        list_all (\<lambda>q. result_Status q \<noteq> Failed) before \<and> result_Status r = Failed \<and>
        step_ID s = result_ID r \<and> result_Error (result_of R s) = result_Error r"
      using i(3) by metis
    with Some err show ?thesis by simp
  qed
qed

theorem Run_error_names_first_failure_witness:
  "\<exists>before r after. fst (fst (Run demo_runtime demo_plan [])) = before @ r # after \<and>
     list_all (\<lambda>q. result_Status q \<noteq> Failed) before \<and> result_Status r = Failed \<and> result_ID r = ''b''"
  using Run_error_names_first_failure [OF demo_accepted demo_run] unfolding demo_run by fastforce

text \<open>
  C7: a failure skips its whole downstream chain and nothing else. When the resumed results
  are closed under dependencies, a step is skipped exactly when a failed step is among the
  steps it depends on, directly or through other steps.
\<close>

definition resume_closed :: "'ag step list \<Rightarrow> options \<Rightarrow> bool" where
  "resume_closed steps opts \<longleftrightarrow>
     list_all (\<lambda>s. resumed (Resume opts) (step_ID s) \<noteq> None \<longrightarrow>
        list_all (\<lambda>d. resumed (Resume opts) d \<noteq> None) (step_DependsOn s)) steps"

lemma settled_cases:
  assumes "settled rt opts R s r"
  obtains (resumed) "resumed (Resume opts) (step_ID s) = Some r" "result_Status r = Succeeded"
  | (executed) "resumed (Resume opts) (step_ID s) = None" "dependenciesSucceeded s R"
      "result_Status r = Succeeded \<or> result_Status r = Failed"
  | (skipped) "resumed (Resume opts) (step_ID s) = None" "hasFailedDependency s R"
      "result_Status r = Skipped"
proof (cases "resumed (Resume opts) (step_ID s)")
  case (Some p)
  with assms resumed_Some [OF Some] show ?thesis by (intro resumed) (auto simp: settled_def)
next
  case None
  show ?thesis
  proof (cases "dependenciesSucceeded s R")
    case True
    with None assms have "result_Status r = Succeeded \<or> result_Status r = Failed"
      using step_outcome_terminal [OF surjective_pairing] by (fastforce simp: settled_def)
    with None True show ?thesis by (rule executed)
  next
    case False
    with None assms show ?thesis by (intro skipped) (auto simp: settled_def skipped_def)
  qed
qed

lemma settled_status:
  "settled rt opts R s r \<Longrightarrow> result_Status r = Skipped \<longleftrightarrow>
     resumed (Resume opts) (step_ID s) = None \<and> hasFailedDependency s R"
  by (erule settled_cases) (auto dest: failed_not_succeeded)

lemma settled_terminal:
  "settled rt opts R s r \<Longrightarrow> result_Status r \<in> {Succeeded, Failed, Skipped}"
  by (erule settled_cases) auto

lemma not_succeeded_skips:
  assumes inv: "run_inv rt opts steps [] R" and closed: "closed_graph steps"
    and resume: "resume_closed steps opts"
    and f: "R d = Some f" "result_Status f \<noteq> Succeeded" and e: "(d, k) \<in> dep_edges steps"
  shows "\<exists>r. R k = Some r \<and> result_Status r = Skipped"
proof -
  from e obtain s where s: "s \<in> set steps" "k = step_ID s" "d \<in> set (step_DependsOn s)"
    by (auto simp: dep_edges_def)
  with closed obtain t where t: "t \<in> set steps" "d = step_ID t"
    by (fastforce simp: closed_graph_def step_ids_def)
  have "resumed (Resume opts) d = None"
  proof (rule ccontr)
    assume "resumed (Resume opts) d \<noteq> None"
    then obtain p where p: "resumed (Resume opts) d = Some p" by blast
    have "settled rt opts R t f" using inv t f(1) by (auto simp: run_inv_def)
    with p t have "f = p" by (simp add: settled_def)
    with p f(2) show False by (auto dest: resumed_Some)
  qed
  then have "resumed (Resume opts) (step_ID s) = None"
    using resume s by (fastforce simp: resume_closed_def list_all_iff)
  moreover have "hasFailedDependency s R" using f s by (auto simp: hasFailedDependency_iff)
  ultimately have "result_Status (result_of R s) = Skipped"
    using settled_status [OF result_of_in(2) [OF inv s(1)]] by blast
  with s result_of_in(1) [OF inv s(1)] show ?thesis by auto
qed

lemma skipped_has_failure:
  assumes inv: "run_inv rt opts steps [] R" and closed: "closed_graph steps"
    and acyclic: "acyclic (dep_edges steps)"
  shows "R k = Some r \<Longrightarrow> result_Status r = Skipped \<Longrightarrow>
    \<exists>d f. R d = Some f \<and> result_Status f = Failed \<and> (d, k) \<in> (dep_edges steps)\<^sup>+"
proof (induction k arbitrary: r rule: wf_induct_rule [OF finite_acyclic_wf [OF finite_dep_edges acyclic]])
  case (1 k)
  then have "k \<in> step_ids steps" using inv by (auto simp: run_inv_def rem_ids_def)
  then obtain s where s: "s \<in> set steps" "k = step_ID s" by (auto simp: step_ids_def)
  then have "settled rt opts R s r" using inv "1.prems"(1) by (auto simp: run_inv_def)
  with "1.prems"(2) obtain d q where d: "d \<in> set (step_DependsOn s)" "R d = Some q"
    "result_Status q \<noteq> Succeeded"
    by (auto simp: settled_status hasFailedDependency_iff)
  then have edge: "(d, k) \<in> dep_edges steps" using s by (auto simp: dep_edges_def)
  from d(1) s closed obtain t where "t \<in> set steps" "d = step_ID t"
    by (fastforce simp: closed_graph_def step_ids_def)
  then have "settled rt opts R t q" using inv d(2) by (auto simp: run_inv_def)
  with settled_terminal d(3) consider "result_Status q = Failed" | "result_Status q = Skipped" by blast
  then show ?case
  proof cases
    case 1
    with d edge show ?thesis by blast
  next
    case 2
    from "1.IH" [OF edge d(2) this] edge show ?thesis by (meson trancl_into_trancl)
  qed
qed

theorem skipped_iff_failed_ancestor:
  assumes "NewWorkflow ord steps opts = Inr plan" and "Run rt plan w = ((ordered, err), w')"
    and resume: "resume_closed steps opts" and r: "r \<in> set ordered"
  shows "result_Status r = Skipped \<longleftrightarrow>
    (\<exists>f\<in>set ordered. result_Status f = Failed \<and> (result_ID f, result_ID r) \<in> (dep_edges steps)\<^sup>+)"
proof -
  obtain R where R: "run_inv rt opts steps [] R" "ordered = map (result_of R) steps"
    and closed: "closed_graph steps" and valid: "valid_steps steps"
    by (rule accepted_run [OF assms(1,2)])
  have look: "R (result_ID q) = Some q" if "q \<in> set ordered" for q
    using that R(2) result_of_in(1,3) [OF R(1)] by auto
  have mem: "q \<in> set ordered \<and> result_ID q = k" if "R k = Some q" for k q
  proof -
    from that have "k \<in> step_ids steps" using R(1) by (auto simp: run_inv_def rem_ids_def)
    then obtain s where "s \<in> set steps" "k = step_ID s" by (auto simp: step_ids_def)
    with that R(2) result_of_in(1,3) [OF R(1)] show ?thesis by fastforce
  qed
  have acyclic: "acyclic (dep_edges steps)" using valid by (simp add: valid_steps_def)
  have chain: "\<exists>q. R k = Some q \<and> result_Status q = Skipped"
    if "(d, k) \<in> (dep_edges steps)\<^sup>+" "R d = Some f" "result_Status f = Failed" for d k f
    using that
  proof (induction rule: trancl_induct)
    case (base k)
    then show ?case using not_succeeded_skips [OF R(1) closed resume] by fastforce
  next
    case (step j k)
    then show ?case using not_succeeded_skips [OF R(1) closed resume] by fastforce
  qed
  show ?thesis
  proof
    assume "result_Status r = Skipped"
    from skipped_has_failure [OF R(1) closed acyclic look [OF r] this] mem
    show "\<exists>f\<in>set ordered. result_Status f = Failed \<and> (result_ID f, result_ID r) \<in> (dep_edges steps)\<^sup>+"
      by blast
  next
    assume "\<exists>f\<in>set ordered. result_Status f = Failed \<and> (result_ID f, result_ID r) \<in> (dep_edges steps)\<^sup>+"
    then obtain f where "f \<in> set ordered" "result_Status f = Failed"
      "(result_ID f, result_ID r) \<in> (dep_edges steps)\<^sup>+" by blast
    with chain look r show "result_Status r = Skipped" by fastforce
  qed
qed

theorem skipped_iff_failed_ancestor_witness:
  "(''b'', ''c'') \<in> (dep_edges demo_steps)\<^sup>+"
proof -
  have "resume_closed demo_steps demo_options"
    by (simp add: resume_closed_def demo_options_def resumed_def list_all_iff)
  from skipped_iff_failed_ancestor [OF demo_accepted demo_run this, of
      "\<lparr>result_ID = ''c'', result_Status = Skipped, result_Attempts = 0, result_Output = [],
        result_Error = ''dependency failed''\<rparr>"]
  show ?thesis by auto
qed





text \<open>
  C8: resuming is free of repeated calls. Every agent call of a run belongs to a step of the
  workflow that had no succeeded result to resume from: the steps that already succeeded are
  replayed, never executed. \<open>calls\<close> is the log of agent calls in the world.
\<close>

theorem Run_never_repeats_resumed:
  fixes calls :: "'w \<Rightarrow> ('ag option \<times> string) list"
  assumes "NewWorkflow ord steps opts = Inr plan" and run: "Run rt plan w = (out, w')"
    and call: "\<And>ag p w. calls (snd (rt_call rt ag p w)) = calls w @ [(ag, p)]"
    and sleep: "\<And>d w. calls (snd (rt_sleep rt d w)) = calls w"
    and notify: "\<And>r w. calls (rt_notify rt r w) = calls w"
  shows "\<exists>made. calls w' = calls w @ made \<and>
    (\<forall>(ag, p)\<in>set made. \<exists>s\<in>set steps. ag = step_Agent s \<and>
       (\<forall>prior\<in>set (Resume opts). result_ID prior = step_ID s \<longrightarrow> result_Status prior \<noteq> Succeeded))"
proof -
  let ?fresh = "\<lambda>s. \<forall>prior\<in>set (Resume opts). result_ID prior = step_ID s \<longrightarrow> result_Status prior \<noteq> Succeeded"
  let ?I = "\<lambda>v. \<exists>made. calls v = calls w @ made \<and>
    (\<forall>(ag, p)\<in>set made. \<exists>s\<in>set steps. ag = step_Agent s \<and> ?fresh s)"
  from assms(1) have plan: "wf_steps plan = steps" "wf_options plan = opts"
    and dist: "distinct (map step_ID (wf_steps plan))"
    by (simp_all add: NewWorkflow_accepts valid_steps_def closed_graph_def)
  have fresh: "?fresh s" if "resumed (Resume opts) (step_ID s) = None" for s :: "'ag step"
    using that by (auto simp: resumed_def find_None_iff)
  show ?thesis
  proof (rule Run_world [OF run dist, of ?I])
    fix s p v assume "s \<in> set (wf_steps plan)" "resumed (Resume (wf_options plan)) (step_ID s) = None" "?I v"
    then obtain made where made: "calls v = calls w @ made"
      "\<forall>(ag, p)\<in>set made. \<exists>s\<in>set steps. ag = step_Agent s \<and> ?fresh s"
      and s: "s \<in> set steps" "?fresh s" using fresh plan by auto
    then show "?I (snd (rt_call rt (step_Agent s) p v))"
      by (intro exI [of _ "made @ [(step_Agent s, p)]"]) (auto simp: call)
  qed (auto simp: sleep notify)
qed

theorem Run_never_repeats_resumed_witness:
  "let opts = demo_options\<lparr>Resume := [\<lparr>result_ID = ''a'', result_Status = Succeeded, result_Attempts = 0,
                                      result_Output = ''old'', result_Error = []\<rparr>]\<rparr>
   in \<exists>made. snd (Run demo_runtime \<lparr>wf_steps = demo_steps, wf_options = opts\<rparr> []) = made \<and>
     (\<forall>(ag, p)\<in>set made. \<exists>s\<in>set demo_steps. ag = step_Agent s \<and>
       (\<forall>prior\<in>set (Resume opts). result_ID prior = step_ID s \<longrightarrow> result_Status prior \<noteq> Succeeded))"
proof -
  let ?opts = "demo_options\<lparr>Resume := [\<lparr>result_ID = ''a'', result_Status = Succeeded, result_Attempts = 0,
                                      result_Output = ''old'', result_Error = []\<rparr>]\<rparr>"
  have ok: "NewWorkflow (\<lambda>ks. ks) demo_steps ?opts = Inr \<lparr>wf_steps = demo_steps, wf_options = ?opts\<rparr>"
    using demo_accepted by (simp add: NewWorkflow_accepts demo_options_def)
  obtain out w' where run: "Run demo_runtime \<lparr>wf_steps = demo_steps, wf_options = ?opts\<rparr> [] = (out, w')"
    by fastforce
  from Run_never_repeats_resumed [OF ok run, of "\<lambda>v. v"] run show ?thesis
    by (simp add: demo_runtime_def)
qed

end
