(* ===== verification/Workflow_Cost.thy ===== *)
theory Workflow_Cost
  imports Workflow_Properties
begin

text \<open>
  The cost of a run: a runtime that counts the agent calls gives the same results, and the
  number of calls is bounded by the number of steps and retries. With agents and timers that
  return, a run therefore returns.
\<close>

definition counted :: "('ag, 'w) runtime \<Rightarrow> ('ag, 'w \<times> nat) runtime" where
  "counted rt =
     \<lparr>rt_call = (\<lambda>ag p (w, n). case rt_call rt ag p w of (r, w') \<Rightarrow> (r, (w', Suc n))),
      rt_sleep = (\<lambda>d (w, n). case rt_sleep rt d w of (r, w') \<Rightarrow> (r, (w', n))),
      rt_notify = (\<lambda>r (w, n). (rt_notify rt r w, n)),
      rt_range = rt_range rt, rt_arrival = rt_arrival rt\<rparr>"

text \<open>\<open>f\<close> on the counted world does what \<open>g\<close> does, with at most \<open>k\<close> calls.\<close>

definition within :: "nat \<Rightarrow> 'r \<times> 'w \<times> nat \<Rightarrow> 'r \<times> 'w \<Rightarrow> nat \<Rightarrow> bool" where
  "within k a b n \<longleftrightarrow> fst a = fst b \<and> fst (snd a) = snd b \<and> snd (snd a) \<le> n + k"

lemma withinE:
  assumes "within k a b n"
  obtains r w m where "a = (r, (w, m))" "b = (r, w)" "m \<le> n + k"
  using assms by (cases a; cases b) (auto simp: within_def)

lemma within_mono: "within k a b n \<Longrightarrow> n + k \<le> n' + k' \<Longrightarrow> within k' a b n'"
  by (auto simp: within_def)

lemma runStep_counted:
  "within (nat (MaxRetries opts - result_Attempts r) + 1)
     (runStep (counted rt) opts ag p r (w, n)) (runStep rt opts ag p r w) n"
proof (induction "nat (MaxRetries opts - result_Attempts r)" arbitrary: r w n rule: less_induct)
  case less
  obtain a w1 where call: "rt_call rt ag p w = (a, w1)" by (metis prod.exhaust)
  show ?case
  proof (cases a)
    case (Inr out)
    with call show ?thesis by (simp add: runStep.simps [of _ _ _ _ r] counted_def within_def)
  next
    case (Inl err)
    show ?thesis
    proof (cases "result_Attempts r \<ge> MaxRetries opts")
      case True
      with call Inl show ?thesis by (simp add: runStep.simps [of _ _ _ _ r] counted_def within_def)
    next
      case False
      let ?r = "r\<lparr>result_Error := error_text err, result_Attempts := result_Attempts r + 1, result_Status := Retrying\<rparr>"
      obtain s w2 where sleep: "rt_sleep rt (wrap64 ((result_Attempts r + 1) * RetryDelay opts)) w1 = (s, w2)"
        by (metis prod.exhaust)
      show ?thesis
      proof (cases s)
        case (Some e)
        with call Inl False sleep show ?thesis
          by (simp add: runStep.simps [of _ _ _ _ r] counted_def within_def Let_def)
      next
        case None
        have "within (nat (MaxRetries opts - result_Attempts ?r) + 1)
            (runStep (counted rt) opts ag p ?r (w2, Suc n)) (runStep rt opts ag p ?r w2) (Suc n)"
          by (rule less) (use False in simp)
        then have "within (nat (MaxRetries opts - result_Attempts r) + 1)
            (runStep (counted rt) opts ag p ?r (w2, Suc n)) (runStep rt opts ag p ?r w2) n"
          by (rule within_mono) (use False in simp)
        moreover have "runStep rt opts ag p r w = runStep rt opts ag p ?r w2"
          using call Inl False sleep None by (simp add: runStep.simps [of _ _ _ _ r] Let_def)
        moreover have "runStep (counted rt) opts ag p r (w, n) = runStep (counted rt) opts ag p ?r (w2, Suc n)"
          using call Inl False sleep None by (simp add: runStep.simps [of _ _ _ _ r] counted_def Let_def)
        ultimately show ?thesis by simp
      qed
    qed
  qed
qed

abbreviation per_step :: "options \<Rightarrow> nat" where
  "per_step opts \<equiv> nat (MaxRetries opts) + 1"

lemma step_outcome_counted:
  "within (per_step opts) (step_outcome (counted rt) opts s rendered (w, n)) (step_outcome rt opts s rendered w) n"
proof (cases rendered)
  case (Inr prompt)
  with runStep_counted [of opts "started (step_ID s)" rt] show ?thesis by (simp add: step_outcome_def started_def)
qed (simp add: step_outcome_def within_def)

lemma drain_counted:
  "within (per_step opts * length ks) (drain (counted rt) opts wave ks R (w, n)) (drain rt opts wave ks R w) n"
proof (induction ks arbitrary: R w n)
  case (Cons k ks)
  show ?case
  proof (cases "map_of wave k")
    case None
    with within_mono [OF Cons] show ?thesis by simp
  next
    case (Some sp)
    obtain s rendered where sp: "sp = (s, rendered)" by (metis prod.exhaust)
    obtain r w1 m where out: "step_outcome (counted rt) opts s rendered (w, n) = (r, (w1, m))"
      "step_outcome rt opts s rendered w = (r, w1)" "m \<le> n + per_step opts"
      by (rule withinE [OF step_outcome_counted [of opts rt s rendered w n]])
    have "rt_notify (counted rt) r (w1, m) = (rt_notify rt r w1, m)" by (simp add: counted_def)
    moreover have "within (per_step opts * length (k # ks))
        (drain (counted rt) opts wave ks (R(result_ID r \<mapsto> r)) (rt_notify rt r w1, m))
        (drain rt opts wave ks (R(result_ID r \<mapsto> r)) (rt_notify rt r w1)) n"
      by (rule within_mono [OF Cons]) (use out(3) in simp)
    ultimately show ?thesis using Some sp out(1,2) by simp
  qed
qed (simp add: within_def)

lemma counted_orders [simp]: "rt_range (counted rt) = rt_range rt" "rt_arrival (counted rt) = rt_arrival rt"
  by (simp_all add: counted_def)

lemma readyWave_counted: "readyWave (counted rt) rem R = readyWave rt rem R"
  by (simp add: readyWave_def)

lemma skipBlocked_counted: "skipBlocked (counted rt) rem R = skipBlocked rt rem R"
proof (induction rt rem R rule: skipBlocked.induct)
  case (1 rt rem R)
  obtain rem1 R1 b where pass: "skip_pass (range_order (rt_range rt) (map fst rem)) rem R False = (rem1, R1, b)"
    by (metis prod_cases3)
  from "1" [OF pass [symmetric] refl] show ?case
    by (cases b) (simp_all add: skipBlocked.simps [of "counted rt" rem R] skipBlocked.simps [of rt rem R] pass)
qed

lemma run_loop_counted:
  "within (per_step opts * length rem) (run_loop (counted rt) opts rem R (w, n)) (run_loop rt opts rem R w) n"
proof (induction rt opts rem R w arbitrary: n rule: run_loop.induct)
  case (1 rt opts rem R w)
  obtain ready rem1 where wave: "readyWave rt rem R = (ready, rem1)" by (metis prod.exhaust)
  show ?case
  proof (cases "rem = [] \<or> ready = []")
    case True
    with wave show ?thesis
      by (auto simp: run_loop.simps [of "counted rt" opts rem] run_loop.simps [of rt opts rem] readyWave_counted within_def)
  next
    case False
    let ?ks = "range_order (rt_arrival rt) (map step_ID ready)"
    obtain R1 w1 m where drain: "drain (counted rt) opts (render_wave ready R) ?ks R (w, n) = (R1, (w1, m))"
      "drain rt opts (render_wave ready R) ?ks R w = (R1, w1)" "m \<le> n + per_step opts * length ready"
      using withinE [OF drain_counted [of opts ?ks rt "render_wave ready R" R w n]] by (metis length_map length_range_order)
    obtain rem2 R2 where skip: "skipBlocked rt rem1 R1 = (rem2, R2)" by (metis prod.exhaust)
    have len: "length ready + length rem2 \<le> length rem"
      using readyWave_length [OF wave] skipBlocked_length [OF skip] by simp
    have "within (per_step opts * length rem2) (run_loop (counted rt) opts rem2 R2 (w1, m)) (run_loop rt opts rem2 R2 w1) m"
      by (rule "1") (use False wave drain skip in auto)
    moreover have "m + per_step opts * length rem2 \<le> n + per_step opts * length rem"
    proof -
      have "m + per_step opts * length rem2 \<le> n + per_step opts * (length ready + length rem2)"
        using drain(3) by (simp add: distrib_left)
      also have "\<dots> \<le> n + per_step opts * length rem" using len by (simp only: add_le_mono mult_le_mono2 le_refl)
      finally show ?thesis .
    qed
    ultimately have "within (per_step opts * length rem) (run_loop (counted rt) opts rem2 R2 (w1, m)) (run_loop rt opts rem2 R2 w1) n"
      by (rule within_mono)
    moreover have "run_loop rt opts rem R w = run_loop rt opts rem2 R2 w1"
      using False wave drain skip by (simp add: run_loop.simps [of rt opts rem])
    moreover have "run_loop (counted rt) opts rem R (w, n) = run_loop (counted rt) opts rem2 R2 (w1, m)"
      using False wave drain(1) skip
      by (simp add: run_loop.simps [of "counted rt" opts rem] readyWave_counted skipBlocked_counted)
    ultimately show ?thesis by simp
  qed
qed

lemma seed_resume_length: "seed_resume ps rem R = (rem', R') \<Longrightarrow> length rem' \<le> length rem"
proof (induction ps rem R rule: seed_resume.induct)
  case (2 prior ps rem R)
  note deleted = length_delete_le [of "result_ID prior" rem]
  show ?case
  proof (cases "result_Status prior = Succeeded \<and> map_of rem (result_ID prior) \<noteq> None")
    case True
    with "2.prems" have "seed_resume ps (AList.delete (result_ID prior) rem) (R(result_ID prior \<mapsto> prior)) = (rem', R')"
      by simp
    from "2.IH"(3) [folded fun_upd_def, OF _ _ this] True deleted show ?thesis by simp
  next
    case False
    with "2.prems" "2.IH"(1,2) show ?thesis by (auto split: if_splits)
  qed
qed simp

lemma all_remaining_length: "length (all_remaining ss) \<le> length ss"
proof -
  have "length (fold (\<lambda>s rem. AList.update (step_ID s) s rem) ss rem) \<le> length ss + length rem" for rem :: "'a remaining"
  proof (induction ss arbitrary: rem)
    case (Cons s ss)
    have "length (AList.update (step_ID s) s rem) \<le> Suc (length rem)" by (induction rem) auto
    with Cons [of "AList.update (step_ID s) s rem"] show ?case by simp
  qed simp
  from this [of "[]"] show ?thesis by (simp add: all_remaining_def)
qed

text \<open>
  C9: a run ends. For any steps, options, agents, timers and interleaving, also those no
  validation has seen, a run makes at most one call and \<open>MaxRetries\<close> retries for every step
  before it returns; counting the calls does not change what it returns. A run of agents and
  timers that return therefore returns.
\<close>

theorem run_ends_within_budget:
  "fst (Run (counted rt) plan (w, 0)) = fst (Run rt plan w) \<and>
   fst (snd (Run (counted rt) plan (w, 0))) = snd (Run rt plan w) \<and>
   snd (snd (Run (counted rt) plan (w, 0))) \<le> length (wf_steps plan) * (nat (MaxRetries (wf_options plan)) + 1)"
proof -
  let ?opts = "wf_options plan"
  obtain rem R where seed: "seed_resume (Resume ?opts) (all_remaining (wf_steps plan)) Map.empty = (rem, R)"
    by (metis prod.exhaust)
  have len: "length rem \<le> length (wf_steps plan)"
    using seed_resume_length [OF seed] all_remaining_length [of "wf_steps plan"] by simp
  obtain R' w' m where loop: "run_loop (counted rt) ?opts rem R (w, 0) = (R', (w', m))"
    "run_loop rt ?opts rem R w = (R', w')" "m \<le> 0 + per_step ?opts * length rem"
    by (rule withinE [OF run_loop_counted [of ?opts rem rt R w 0]])
  have "per_step ?opts * length rem \<le> per_step ?opts * length (wf_steps plan)" using len by (rule mult_le_mono2)
  with loop seed show ?thesis by (simp add: Run_def mult.commute)
qed

end
