(* ===== verification/Contracts.thy ===== *)
theory Contracts
  imports Anchora_Prelude
begin

text \<open>
  The contracts the backends of \<^verbatim>\<open>internal/jobs\<close> share, as locales. \<open>fifo\<close> is what the service
  relies on when it pushes and claims job IDs; \<open>leases\<close> is what a worker relies on while it
  holds a job, and it is promised twice: by the Redis queue and by the PostgreSQL store. Both
  are interpreted on the models of those two backends.
\<close>

section \<open>First in, first out\<close>

text \<open>\<open>pops pop n\<close> takes up to \<open>n\<close> elements, stopping when there is none.\<close>

primrec pops :: "('s \<Rightarrow> string option \<times> 's) \<Rightarrow> nat \<Rightarrow> 's \<Rightarrow> string list \<times> 's" where
  "pops pop 0 s = ([], s)"
| "pops pop (Suc n) s =
     (case pop s of
        (None, s1) \<Rightarrow> ([], s1)
      | (Some x, s1) \<Rightarrow> (case pops pop n s1 of (xs, s2) \<Rightarrow> (x # xs, s2)))"

locale fifo =
  fixes waiting :: "'s \<Rightarrow> string list"
    and push :: "string \<Rightarrow> 's \<Rightarrow> 's"
    and pop :: "'s \<Rightarrow> string option \<times> 's"
  assumes waiting_push: "waiting (push x s) = waiting s @ [x]"
    and pop_empty: "waiting s = [] \<Longrightarrow> pop s = (None, s)"
    and pop_next: "waiting s = x # xs \<Longrightarrow> fst (pop s) = Some x \<and> waiting (snd (pop s)) = xs"
begin

lemma waiting_pushes: "waiting (fold push xs s) = waiting s @ xs"
  by (induction xs arbitrary: s) (simp_all add: waiting_push)

lemma pops_take: "fst (pops pop n s) = take n (waiting s) \<and> waiting (snd (pops pop n s)) = drop n (waiting s)"
proof (induction n arbitrary: s)
  case (Suc n)
  show ?case
  proof (cases "waiting s")
    case Nil
    then show ?thesis by (simp add: pop_empty)
  next
    case (Cons x xs)
    obtain s1 where "pop s = (Some x, s1)" "waiting s1 = xs"
      using pop_next [OF Cons] by (metis prod.collapse)
    with Suc [of s1] Cons show ?thesis by (simp add: split_beta)
  qed
qed simp

text \<open>What is pushed behind a backlog is served after it, in the order of the pushes.\<close>

lemma pops_pushes:
  "n = length (waiting s) + length xs \<Longrightarrow> fst (pops pop n (fold push xs s)) = waiting s @ xs"
  by (simp add: pops_take waiting_pushes)

end

section \<open>Leases\<close>

text \<open>
  \<open>held s j\<close> is the holder of job \<open>j\<close> with the deadline of its lease. \<open>extend j o d\<close> asks for a
  new deadline in the name of worker \<open>o\<close>; \<open>sweep t\<close> takes back leases that ended by time \<open>t\<close>.
\<close>

datatype lease_event =
  Extended string string int
| Swept int

primrec after_event ::
  "(string \<Rightarrow> string \<Rightarrow> int \<Rightarrow> 's \<Rightarrow> bool \<times> 's) \<Rightarrow> (int \<Rightarrow> 's \<Rightarrow> 's) \<Rightarrow> lease_event \<Rightarrow> 's \<Rightarrow> 's" where
  "after_event extend sweep (Extended j w d) s = snd (extend j w d s)"
| "after_event extend sweep (Swept t) s = sweep t s"

text \<open>
  A schedule is timely for the holder of \<open>j\<close> when every sweep comes before the deadline that
  holds then; the holder's own extensions move that deadline.
\<close>

fun timely :: "string \<Rightarrow> string \<Rightarrow> int \<Rightarrow> lease_event list \<Rightarrow> bool" where
  "timely j w d [] = True"
| "timely j w d (Swept t # es) = (t < d \<and> timely j w d es)"
| "timely j w d (Extended i v d' # es) = timely j w (if i = j \<and> v = w then d' else d) es"

locale leases =
  fixes ok :: "'s \<Rightarrow> bool"
    and held :: "'s \<Rightarrow> string \<Rightarrow> (string \<times> int) option"
    and extend :: "string \<Rightarrow> string \<Rightarrow> int \<Rightarrow> 's \<Rightarrow> bool \<times> 's"
    and sweep :: "int \<Rightarrow> 's \<Rightarrow> 's"
  assumes extend_ok: "ok s \<Longrightarrow> ok (snd (extend j w d s))"
    and sweep_ok: "ok s \<Longrightarrow> ok (sweep t s)"
    and extend_answer: "ok s \<Longrightarrow> fst (extend j w d s) \<longleftrightarrow> (\<exists>d0. held s j = Some (w, d0))"
    and extend_held: "ok s \<Longrightarrow> held (snd (extend j w d s)) i =
          (if i = j \<and> fst (extend j w d s) then Some (w, d) else held s i)"
    and sweep_keeps: "ok s \<Longrightarrow> held s j = Some (w, d) \<Longrightarrow> t < d \<Longrightarrow> held (sweep t s) j = Some (w, d)"
    and sweep_takes: "ok s \<Longrightarrow> held (sweep t s) j = Some h \<Longrightarrow> held s j = Some h"
begin

lemma event_ok: "ok s \<Longrightarrow> ok (after_event extend sweep e s)"
  by (cases e) (simp_all add: extend_ok sweep_ok)

lemma timely_keeps:
  "ok s \<Longrightarrow> held s j = Some (w, d) \<Longrightarrow> timely j w d es \<Longrightarrow>
   ok (fold (after_event extend sweep) es s) \<and> (\<exists>d'. held (fold (after_event extend sweep) es s) j = Some (w, d'))"
proof (induction es arbitrary: s d)
  case (Cons e es)
  show ?case
  proof (cases e)
    case (Swept t)
    with Cons.prems have "t < d" "timely j w d es" by auto
    then show ?thesis
      using Cons.IH [of "sweep t s" d] Cons.prems(1,2) Swept sweep_ok sweep_keeps by simp
  next
    case (Extended i v d')
    let ?d = "if i = j \<and> v = w then d' else d"
    have "held (snd (extend i v d' s)) j = Some (w, ?d)"
      using Cons.prems(1,2) by (auto simp: extend_held extend_answer)
    then show ?thesis
      using Cons.IH [of "snd (extend i v d' s)" ?d] Cons.prems Extended extend_ok by auto
  qed
qed auto

text \<open>No schedule of extensions and sweeps gives a job to a worker that did not hold it.\<close>

lemma no_new_holder:
  "ok s \<Longrightarrow> held (fold (after_event extend sweep) es s) j = Some (w, d) \<Longrightarrow> \<exists>d0. held s j = Some (w, d0)"
proof (induction es arbitrary: s)
  case (Cons e es)
  from Cons.IH [of "after_event extend sweep e s"] Cons.prems event_ok
  obtain d0 where d0: "held (after_event extend sweep e s) j = Some (w, d0)" by auto
  show ?case
  proof (cases e)
    case (Swept t)
    with d0 Cons.prems(1) sweep_takes show ?thesis by auto
  next
    case (Extended i v d')
    with d0 Cons.prems(1) show ?thesis
      by (auto simp: extend_held extend_answer split: if_splits)
  qed
qed auto

lemma superseded_refused:
  assumes "ok s" and "held s j = Some (v, d)" and "v \<noteq> w"
  shows "fst (extend j w d' (fold (after_event extend sweep) es s)) = False"
proof -
  have ok': "ok (fold (after_event extend sweep) es s)"
    using assms(1) by (induction es arbitrary: s) (simp_all add: event_ok)
  show ?thesis using extend_answer [OF ok', of j w d'] no_new_holder [OF assms(1)] assms(2,3) by fastforce
qed

end

end
