(* ===== verification/Store_Tables.thy ===== *)
theory Store_Tables
  imports Contracts Workflow_Graph
begin

text \<open>
  The PostgreSQL tables of \<^verbatim>\<open>internal/jobs/store.go\<close> and its SQL statements. A table is the
  list of its rows in an order nothing depends on; a statement is one atomic function on the
  tables, its \<open>WHERE\<close> clause a predicate on rows. \<open>NULL\<close> is \<open>None\<close>. Timestamps are in
  microseconds, the resolution of \<open>TIMESTAMPTZ\<close>; \<open>now\<close>, the time of the statement, is an
  argument. Values written to \<open>TEXT\<close> and \<open>JSONB\<close> columns are kept as they are: the texts the
  program writes are valid UTF-8 without zero bytes, or PostgreSQL refuses them, which is one
  of the failures a call can have.
\<close>

section \<open>Go values\<close>

record job_step =
  js_ID :: string
  js_Agent :: string
  js_Prompt :: string
  js_DependsOn :: "string list"

text \<open>Times of Go values are in nanoseconds; a nil pointer is \<open>None\<close>.\<close>

record job =
  job_ID :: string
  job_Status :: status
  job_Attempts :: int
  job_Owner :: string
  job_Error :: string
  job_CreatedAt :: int
  job_StartedAt :: "int option"
  job_FinishedAt :: "int option"
  job_LeaseExpiresAt :: "int option"
  job_Steps :: "job_step list"
  job_Results :: "step_result list"

text \<open>The payloads of the events, as the values that are encoded to JSON.\<close>

datatype payload =
  QueuedJob job
| RunningJob status string int
| Reason string
| CompletedSteps int
| StepOutcome step_result
| AbandonedBy string string
| DeadLetter int int string
| FinishedJob status "step_result list" string int

section \<open>Tables\<close>

record job_row =
  j_id :: string
  j_status :: status
  j_created_at :: int
  j_started_at :: "int option"
  j_finished_at :: "int option"
  j_attempts :: int
  j_owner :: "string option"
  j_lease_expires_at :: "int option"
  j_error :: string
  j_updated_at :: int

record step_row =
  s_job_id :: string
  s_id :: string
  s_ordinal :: int
  s_agent :: string
  s_prompt :: string
  s_depends_on :: "string list"
  s_status :: status
  s_attempts :: int
  s_output :: string
  s_error :: string
  s_owner :: "string option"
  s_started_at :: "int option"
  s_finished_at :: "int option"

record event_row =
  e_id :: int
  e_job_id :: string
  e_type :: string
  e_data :: payload
  e_created_at :: int

record worker_row =
  wk_id :: string
  wk_hostname :: string
  wk_pid :: int
  wk_queue :: string
  wk_started_at :: int
  wk_last_heartbeat_at :: int
  wk_jobs_claimed :: int

text \<open>\<open>next_event\<close> is the sequence behind \<open>BIGSERIAL\<close>.\<close>

record db =
  db_jobs :: "job_row list"
  db_steps :: "step_row list"
  db_events :: "event_row list"
  db_workers :: "worker_row list"
  next_event :: int

definition empty_db :: db where
  "empty_db = \<lparr>db_jobs = [], db_steps = [], db_events = [], db_workers = [], next_event = 1\<rparr>"

text \<open>\<open>UPDATE\<close> and \<open>DELETE\<close>: the number of rows affected and the new table.\<close>

definition sql_update :: "('r \<Rightarrow> bool) \<Rightarrow> ('r \<Rightarrow> 'r) \<Rightarrow> 'r list \<Rightarrow> int \<times> 'r list" where
  "sql_update P f rows = (int (length (filter P rows)), map (\<lambda>r. if P r then f r else r) rows)"

definition sql_delete :: "('r \<Rightarrow> bool) \<Rightarrow> 'r list \<Rightarrow> int \<times> 'r list" where
  "sql_delete P rows = (int (length (filter P rows)), filter (\<lambda>r. \<not> P r) rows)"

text \<open>\<open>make_interval(secs => ms / 1000)\<close> in microseconds.\<close>

definition interval_ms :: "int \<Rightarrow> int" where
  "interval_ms ms = ms * 1000"

section \<open>Create and Get\<close>

definition insert_job :: "job \<Rightarrow> db \<Rightarrow> gerror + db" where
  "insert_job job d =
     (if list_ex (\<lambda>r. j_id r = job_ID job) (db_jobs d) then Inl (Errorf ''duplicate key: workflow_jobs'')
      else let created = job_CreatedAt job div 1000
           in Inr (d\<lparr>db_jobs := db_jobs d @ [\<lparr>j_id = job_ID job, j_status = job_Status job, j_created_at = created,
                j_started_at = None, j_finished_at = None, j_attempts = 0, j_owner = None,
                j_lease_expires_at = None, j_error = [], j_updated_at = created\<rparr>]\<rparr>))"

definition insert_step :: "string \<Rightarrow> int \<Rightarrow> job_step \<Rightarrow> step_result \<Rightarrow> db \<Rightarrow> gerror + db" where
  "insert_step j i s r d =
     (if list_ex (\<lambda>row. s_job_id row = j \<and> s_id row = js_ID s) (db_steps d)
      then Inl (Errorf ''duplicate key: workflow_steps'')
      else Inr (d\<lparr>db_steps := db_steps d @ [\<lparr>s_job_id = j, s_id = js_ID s, s_ordinal = i, s_agent = js_Agent s,
             s_prompt = js_Prompt s, s_depends_on = js_DependsOn s, s_status = result_Status r,
             s_attempts = result_Attempts r, s_output = result_Output r, s_error = result_Error r,
             s_owner = None, s_started_at = None, s_finished_at = None\<rparr>]\<rparr>))"

text \<open>
  The loop of \<open>Create\<close>. \<open>job.Results[i]\<close> panics when there are fewer results than steps; the
  transaction is then rolled back like on an error.
\<close>

fun insert_steps :: "string \<Rightarrow> int \<Rightarrow> job_step list \<Rightarrow> step_result list \<Rightarrow> db \<Rightarrow> gerror + db" where
  "insert_steps j i [] rs d = Inr d"
| "insert_steps j i (s # ss) [] d = Inl (Sentinel ''panic: index out of range'')"
| "insert_steps j i (s # ss) (r # rs) d =
     (case insert_step j i s r d of
        Inl e \<Rightarrow> Inl e
      | Inr d' \<Rightarrow> insert_steps j (i + 1) ss rs d')"

definition create_job :: "job \<Rightarrow> db \<Rightarrow> gerror + db" where
  "create_job job d =
     (case insert_job job d of
        Inl e \<Rightarrow> Inl e
      | Inr d' \<Rightarrow> insert_steps (job_ID job) 0 (job_Steps job) (job_Results job) d')"

definition select_job :: "string \<Rightarrow> db \<Rightarrow> job_row option" where
  "select_job j d = find (\<lambda>r. j_id r = j) (db_jobs d)"

definition select_steps :: "string \<Rightarrow> db \<Rightarrow> step_row list" where
  "select_steps j d = sort_key s_ordinal (filter (\<lambda>r. s_job_id r = j) (db_steps d))"

definition load_job :: "string \<Rightarrow> job_row \<Rightarrow> step_row list \<Rightarrow> job" where
  "load_job j r rows =
     \<lparr>job_ID = j, job_Status = j_status r, job_Attempts = j_attempts r,
      job_Owner = (case j_owner r of None \<Rightarrow> [] | Some w \<Rightarrow> w), job_Error = j_error r,
      job_CreatedAt = j_created_at r * 1000, job_StartedAt = map_option (\<lambda>t. t * 1000) (j_started_at r),
      job_FinishedAt = map_option (\<lambda>t. t * 1000) (j_finished_at r),
      job_LeaseExpiresAt = map_option (\<lambda>t. t * 1000) (j_lease_expires_at r),
      job_Steps = map (\<lambda>s. \<lparr>js_ID = s_id s, js_Agent = s_agent s, js_Prompt = s_prompt s,
                             js_DependsOn = s_depends_on s\<rparr>) rows,
      job_Results = map (\<lambda>s. \<lparr>result_ID = s_id s, result_Status = s_status s, result_Attempts = s_attempts s,
                               result_Output = s_output s, result_Error = s_error s\<rparr>) rows\<rparr>"

section \<open>The job lease\<close>

definition terminal :: "status \<Rightarrow> bool" where
  "terminal st \<longleftrightarrow> st = Succeeded \<or> st = Failed"

definition claimable :: "string \<Rightarrow> string \<Rightarrow> int \<Rightarrow> job_row \<Rightarrow> bool" where
  "claimable j w now r \<longleftrightarrow> j_id r = j \<and> \<not> terminal (j_status r) \<and>
     (j_owner r = None \<or> j_owner r = Some w \<or>
      (case j_lease_expires_at r of None \<Rightarrow> True | Some t \<Rightarrow> t \<le> now))"

definition claim_row :: "string \<Rightarrow> int \<Rightarrow> int \<Rightarrow> job_row \<Rightarrow> job_row" where
  "claim_row w ms now r =
     r\<lparr>j_status := Running, j_owner := Some w, j_lease_expires_at := Some (now + interval_ms ms),
       j_started_at := (case j_started_at r of None \<Rightarrow> Some now | Some t \<Rightarrow> Some t),
       j_attempts := j_attempts r + 1, j_updated_at := now\<rparr>"

definition claim_job :: "string \<Rightarrow> string \<Rightarrow> int \<Rightarrow> int \<Rightarrow> db \<Rightarrow> int option \<times> db" where
  "claim_job j w ms now d =
     (map_option (\<lambda>r. j_attempts (claim_row w ms now r)) (find (claimable j w now) (db_jobs d)),
      d\<lparr>db_jobs := snd (sql_update (claimable j w now) (claim_row w ms now) (db_jobs d))\<rparr>)"

definition owned_running :: "string \<Rightarrow> string \<Rightarrow> job_row \<Rightarrow> bool" where
  "owned_running j w r \<longleftrightarrow> j_id r = j \<and> j_owner r = Some w \<and> j_status r = Running"

definition extend_job :: "string \<Rightarrow> string \<Rightarrow> int \<Rightarrow> int \<Rightarrow> db \<Rightarrow> int \<times> db" where
  "extend_job j w ms now d =
     (let (n, js) = sql_update (owned_running j w)
            (\<lambda>r. r\<lparr>j_lease_expires_at := Some (now + interval_ms ms), j_updated_at := now\<rparr>) (db_jobs d)
      in (n, d\<lparr>db_jobs := js\<rparr>))"

definition finish_job :: "string \<Rightarrow> string \<Rightarrow> status \<Rightarrow> string \<Rightarrow> int \<Rightarrow> db \<Rightarrow> int \<times> db" where
  "finish_job j w st err now d =
     (let (n, js) = sql_update (\<lambda>r. j_id r = j \<and> (j_owner r = Some w \<or> w = [] \<and> j_owner r = None))
            (\<lambda>r. r\<lparr>j_status := st, j_error := err, j_finished_at := Some now, j_owner := None,
                   j_lease_expires_at := None, j_updated_at := now\<rparr>) (db_jobs d)
      in (n, d\<lparr>db_jobs := js\<rparr>))"

definition release_row :: "int \<Rightarrow> job_row \<Rightarrow> job_row" where
  "release_row now r =
     r\<lparr>j_status := Pending, j_owner := None, j_lease_expires_at := None, j_updated_at := now\<rparr>"

definition release_job :: "string \<Rightarrow> string \<Rightarrow> int \<Rightarrow> db \<Rightarrow> db" where
  "release_job j w now d = d\<lparr>db_jobs := snd (sql_update (owned_running j w) (release_row now) (db_jobs d))\<rparr>"

text \<open>
  \<open>locked\<close> are the rows other transactions hold locks on, which \<open>SKIP LOCKED\<close> leaves out. Rows
  with equal deadlines come in the order of the table.
\<close>

definition expired :: "int \<Rightarrow> int \<Rightarrow> job_row \<Rightarrow> bool" where
  "expired ms now r \<longleftrightarrow> j_status r = Running \<and>
     (case j_lease_expires_at r of None \<Rightarrow> False | Some t \<Rightarrow> t \<le> now - interval_ms ms)"

definition deadline_of :: "job_row \<Rightarrow> int" where
  "deadline_of r = (case j_lease_expires_at r of None \<Rightarrow> 0 | Some t \<Rightarrow> t)"

definition expired_ids :: "int \<Rightarrow> int \<Rightarrow> (string \<Rightarrow> bool) \<Rightarrow> int \<Rightarrow> db \<Rightarrow> string list" where
  "expired_ids ms limit locked now d =
     map j_id (take (nat limit) (sort_key deadline_of
       (filter (\<lambda>r. expired ms now r \<and> \<not> locked (j_id r)) (db_jobs d))))"

definition reclaim_jobs :: "int \<Rightarrow> int \<Rightarrow> (string \<Rightarrow> bool) \<Rightarrow> int \<Rightarrow> db \<Rightarrow> string list \<times> db" where
  "reclaim_jobs ms limit locked now d =
     (let P = (\<lambda>r. j_id r \<in> set (expired_ids ms limit locked now d))
      in (map j_id (filter P (db_jobs d)), d\<lparr>db_jobs := snd (sql_update P (release_row now) (db_jobs d))\<rparr>))"

section \<open>Steps\<close>

definition claim_step :: "string \<Rightarrow> string \<Rightarrow> string \<Rightarrow> int \<Rightarrow> db \<Rightarrow> int \<times> db" where
  "claim_step j s w now d =
     (let (n, rows) = sql_update
            (\<lambda>r. s_job_id r = j \<and> s_id r = s \<and> list_ex (\<lambda>q. j_id q = s_job_id r \<and> j_owner q = Some w) (db_jobs d) \<and>
                 s_status r \<noteq> Succeeded)
            (\<lambda>r. r\<lparr>s_status := Running, s_owner := Some w, s_started_at := Some now\<rparr>) (db_steps d)
      in (n, d\<lparr>db_steps := rows\<rparr>))"

definition update_step :: "string \<Rightarrow> string \<Rightarrow> step_result \<Rightarrow> int \<Rightarrow> db \<Rightarrow> db" where
  "update_step j w res now d =
     d\<lparr>db_steps := snd (sql_update
         (\<lambda>r. s_job_id r = j \<and> s_id r = result_ID res \<and>
              list_ex (\<lambda>q. j_id q = s_job_id r \<and> (w = [] \<or> j_owner q = Some w)) (db_jobs d))
         (\<lambda>r. r\<lparr>s_status := result_Status res, s_attempts := result_Attempts res, s_output := result_Output res,
                s_error := result_Error res,
                s_finished_at := (if result_Status res \<in> {Succeeded, Failed, Skipped} then Some now
                                  else s_finished_at r)\<rparr>) (db_steps d))\<rparr>"

section \<open>Events\<close>

text \<open>
  An insert draws the next ID from the sequence even when it is refused, here because the
  job does not exist.
\<close>

definition append_event :: "string \<Rightarrow> string \<Rightarrow> payload \<Rightarrow> int \<Rightarrow> db \<Rightarrow> (gerror + unit) \<times> db" where
  "append_event j typ data now d =
     (let d1 = d\<lparr>next_event := next_event d + 1\<rparr>
      in if list_ex (\<lambda>r. j_id r = j) (db_jobs d)
         then (Inr (), d1\<lparr>db_events := db_events d @ [\<lparr>e_id = next_event d, e_job_id = j, e_type = typ,
                              e_data = data, e_created_at = now\<rparr>]\<rparr>)
         else (Inl (Errorf ''foreign key: workflow_events''), d1))"

definition select_events :: "string \<Rightarrow> int \<Rightarrow> db \<Rightarrow> event_row list" where
  "select_events j after d = sort_key e_id (filter (\<lambda>e. e_job_id e = j \<and> e_id e > after) (db_events d))"

section \<open>The worker registry\<close>

definition register_worker :: "string \<Rightarrow> string \<Rightarrow> int \<Rightarrow> string \<Rightarrow> int \<Rightarrow> db \<Rightarrow> db" where
  "register_worker w host pid queue now d =
     (if list_ex (\<lambda>r. wk_id r = w) (db_workers d)
      then d\<lparr>db_workers := snd (sql_update (\<lambda>r. wk_id r = w)
             (\<lambda>r. r\<lparr>wk_hostname := host, wk_pid := pid, wk_queue := queue, wk_started_at := now,
                    wk_last_heartbeat_at := now\<rparr>) (db_workers d))\<rparr>
      else d\<lparr>db_workers := db_workers d @ [\<lparr>wk_id = w, wk_hostname = host, wk_pid = pid, wk_queue = queue,
             wk_started_at = now, wk_last_heartbeat_at = now, wk_jobs_claimed = 0\<rparr>]\<rparr>)"

definition heartbeat_worker :: "string \<Rightarrow> int \<Rightarrow> int \<Rightarrow> db \<Rightarrow> db" where
  "heartbeat_worker w claimed now d =
     d\<lparr>db_workers := snd (sql_update (\<lambda>r. wk_id r = w)
         (\<lambda>r. r\<lparr>wk_last_heartbeat_at := now, wk_jobs_claimed := wk_jobs_claimed r + claimed\<rparr>) (db_workers d))\<rparr>"

definition unregister_worker :: "string \<Rightarrow> db \<Rightarrow> db" where
  "unregister_worker w d = d\<lparr>db_workers := snd (sql_delete (\<lambda>r. wk_id r = w) (db_workers d))\<rparr>"

definition prune_workers :: "int \<Rightarrow> int \<Rightarrow> db \<Rightarrow> int \<times> db" where
  "prune_workers ms now d =
     (let (n, rows) = sql_delete (\<lambda>r. wk_last_heartbeat_at r < now - interval_ms ms) (db_workers d)
      in (n, d\<lparr>db_workers := rows\<rparr>))"

definition select_workers :: "int \<Rightarrow> int \<Rightarrow> db \<Rightarrow> worker_row list" where
  "select_workers ms now d =
     sort_key wk_started_at (filter (\<lambda>r. wk_last_heartbeat_at r \<ge> now - interval_ms ms) (db_workers d))"

section \<open>Sequences of statements\<close>

text \<open>Every statement as one step type, for sequences of calls by any number of processes.\<close>

datatype store_call =
  SqlCreate job
| SqlClaim string string int
| SqlExtend string string int
| SqlFinish string string status string
| SqlRelease string string
| SqlReclaim int int "string \<Rightarrow> bool"
| SqlClaimStep string string string
| SqlUpdateStep string string step_result
| SqlAppend string string payload
| SqlRegister string string int string
| SqlHeartbeat string int
| SqlUnregister string
| SqlPrune int

fun store_step :: "int \<times> store_call \<Rightarrow> db \<Rightarrow> db" where
  "store_step (now, SqlCreate job) d = (case create_job job d of Inl e \<Rightarrow> d | Inr d' \<Rightarrow> d')"
| "store_step (now, SqlClaim j w ms) d = snd (claim_job j w ms now d)"
| "store_step (now, SqlExtend j w ms) d = snd (extend_job j w ms now d)"
| "store_step (now, SqlFinish j w st err) d = snd (finish_job j w st err now d)"
| "store_step (now, SqlRelease j w) d = release_job j w now d"
| "store_step (now, SqlReclaim ms limit locked) d = snd (reclaim_jobs ms limit locked now d)"
| "store_step (now, SqlClaimStep j s w) d = snd (claim_step j s w now d)"
| "store_step (now, SqlUpdateStep j w res) d = update_step j w res now d"
| "store_step (now, SqlAppend j typ data) d = snd (append_event j typ data now d)"
| "store_step (now, SqlRegister w host pid q) d = register_worker w host pid q now d"
| "store_step (now, SqlHeartbeat w n) d = heartbeat_worker w n now d"
| "store_step (now, SqlUnregister w) d = unregister_worker w d"
| "store_step (now, SqlPrune ms) d = snd (prune_workers ms now d)"

end
