(* ===== verification/Store_Spec.thy ===== *)
theory Store_Spec
  imports Store_Tables
begin

text \<open>
  What the tables of the store keep invariant, and the lemmas on its statements: the frame of
  each statement, the lease contract of \<open>workflow_jobs\<close>, and the rows a worker can touch.
\<close>

section \<open>Updates\<close>

lemma sql_update_map [simp]: "snd (sql_update P f rows) = map (\<lambda>r. if P r then f r else r) rows"
  by (simp add: sql_update_def)

lemma sql_update_count: "fst (sql_update P f rows) = int (length (filter P rows))"
  by (simp add: sql_update_def)

lemma map_if_key: "(\<And>r. g (f r) = g r) \<Longrightarrow> map g (map (\<lambda>r. if P r then f r else r) rows) = map g rows"
  by simp

lemma unique_key:
  "distinct (map g rows) \<Longrightarrow> r \<in> set rows \<Longrightarrow> r' \<in> set rows \<Longrightarrow> g r = g r' \<Longrightarrow> r = r'"
  by (metis distinct_map inj_on_def)

lemma length_filter_unique:
  assumes "distinct (map g rows)" and "\<And>r. P r \<Longrightarrow> g r = k"
  shows "length (filter P rows) = (if \<exists>r\<in>set rows. P r then 1 else 0)"
  using assms(1)
proof (induction rows)
  case (Cons r rows)
  show ?case
  proof (cases "P r")
    case True
    have "\<not> P r'" if "r' \<in> set rows" for r'
      using that Cons.prems assms(2) True by fastforce
    then have "filter P rows = []" by (simp add: filter_empty_conv)
    with True show ?thesis by simp
  qed (use Cons in auto)
qed simp

section \<open>The invariant\<close>

text \<open>
  A job is running exactly when it has an owner and a deadline; other jobs have neither. The
  life of a job is pending, running and one of the two terminal states.
\<close>

definition job_row_ok :: "job_row \<Rightarrow> bool" where
  "job_row_ok r \<longleftrightarrow> 0 \<le> j_attempts r \<and>
     (j_status r = Running \<and> j_owner r \<noteq> None \<and> j_lease_expires_at r \<noteq> None \<or>
      (j_status r = Pending \<or> terminal (j_status r)) \<and> j_owner r = None \<and> j_lease_expires_at r = None)"

definition jobs_ok :: "job_row list \<Rightarrow> bool" where
  "jobs_ok js \<longleftrightarrow> distinct (map j_id js) \<and> (\<forall>r\<in>set js. job_row_ok r)"

definition steps_ok :: "string set \<Rightarrow> step_row list \<Rightarrow> bool" where
  "steps_ok ids ss \<longleftrightarrow> distinct (map (\<lambda>s. (s_job_id s, s_id s)) ss) \<and> (\<forall>s\<in>set ss. s_job_id s \<in> ids)"

definition events_ok :: "string set \<Rightarrow> int \<Rightarrow> event_row list \<Rightarrow> bool" where
  "events_ok ids n es \<longleftrightarrow> sorted_wrt (\<lambda>a b. e_id a < e_id b) es \<and>
     (\<forall>e\<in>set es. 0 < e_id e \<and> e_id e < n \<and> e_job_id e \<in> ids)"

definition store_ok :: "db \<Rightarrow> bool" where
  "store_ok d \<longleftrightarrow> jobs_ok (db_jobs d) \<and> steps_ok (j_id ` set (db_jobs d)) (db_steps d) \<and>
     events_ok (j_id ` set (db_jobs d)) (next_event d) (db_events d) \<and> 0 < next_event d \<and>
     distinct (map wk_id (db_workers d))"

text \<open>The arguments the program passes: jobs are created pending and finished in a terminal state.\<close>

fun legal :: "store_call \<Rightarrow> bool" where
  "legal (SqlCreate job) = (job_Status job = Pending)"
| "legal (SqlFinish j w st err) = terminal st"
| "legal _ = True"

lemma store_ok_jobs:
  assumes "store_ok d" and keys: "\<And>r. j_id (f r) = j_id r"
    and "\<And>r. P r \<Longrightarrow> job_row_ok r \<Longrightarrow> job_row_ok (f r)"
  shows "store_ok (d\<lparr>db_jobs := map (\<lambda>r. if P r then f r else r) (db_jobs d)\<rparr>)"
proof -
  have "j_id ` set (map (\<lambda>r. if P r then f r else r) (db_jobs d)) = j_id ` set (db_jobs d)"
    using map_if_key [of j_id f P "db_jobs d"] keys by (metis list.set_map)
  with assms show ?thesis
    using map_if_key [of j_id f P "db_jobs d"] by (auto simp: store_ok_def jobs_ok_def simp del: map_map)
qed

lemma store_ok_steps:
  assumes "store_ok d" and keys: "\<And>r. s_job_id (f r) = s_job_id r" "\<And>r. s_id (f r) = s_id r"
  shows "store_ok (d\<lparr>db_steps := map (\<lambda>r. if P r then f r else r) (db_steps d)\<rparr>)"
proof -
  let ?rows = "map (\<lambda>r. if P r then f r else r) (db_steps d)"
  have "map (\<lambda>s. (s_job_id s, s_id s)) ?rows = map (\<lambda>s. (s_job_id s, s_id s)) (db_steps d)"
    by (rule map_if_key) (simp add: keys)
  moreover have "\<forall>s\<in>set ?rows. s_job_id s \<in> s_job_id ` set (db_steps d)" using keys by auto
  ultimately show ?thesis
    using assms(1) by (auto simp: store_ok_def steps_ok_def keys simp del: map_map)
qed

lemma insert_step_frame:
  assumes "insert_step j i s r d = Inr d'"
  shows "db_jobs d' = db_jobs d \<and> db_events d' = db_events d \<and> db_workers d' = db_workers d \<and>
    next_event d' = next_event d \<and>
    (steps_ok ids (db_steps d) \<and> j \<in> ids \<longrightarrow> steps_ok ids (db_steps d'))"
  using assms by (auto simp: insert_step_def steps_ok_def list_ex_iff split: if_splits) blast

lemma insert_steps_frame:
  "insert_steps j i ss rs d = Inr d' \<Longrightarrow>
   db_jobs d' = db_jobs d \<and> db_events d' = db_events d \<and> db_workers d' = db_workers d \<and>
   next_event d' = next_event d \<and>
   (steps_ok ids (db_steps d) \<and> j \<in> ids \<longrightarrow> steps_ok ids (db_steps d'))"
proof (induction j i ss rs d rule: insert_steps.induct)
  case (3 j i s ss r rs d)
  from "3.prems" obtain d1 where d1: "insert_step j i s r d = Inr d1" "insert_steps j (i + 1) ss rs d1 = Inr d'"
    by (auto split: sum.splits)
  from insert_step_frame [OF d1(1), of ids] "3.IH" [OF d1] show ?case by simp
qed auto

lemma store_ok_create:
  assumes ok: "store_ok d" and "create_job job d = Inr d'" and "job_Status job = Pending"
  shows "store_ok d'"
proof -
  obtain d1 where d1: "insert_job job d = Inr d1"
    "insert_steps (job_ID job) 0 (job_Steps job) (job_Results job) d1 = Inr d'"
    using assms(2) by (auto simp: create_job_def split: sum.splits)
  from d1(1) have new: "job_ID job \<notin> j_id ` set (db_jobs d)"
    by (auto simp: insert_job_def list_ex_iff split: if_splits)
  with d1(1) obtain r where r: "d1 = d\<lparr>db_jobs := db_jobs d @ [r]\<rparr>" "j_id r = job_ID job" "job_row_ok r"
    using assms(3) by (auto simp: insert_job_def job_row_ok_def Let_def split: if_splits)
  have "jobs_ok (db_jobs d1)" using ok new r by (auto simp: store_ok_def jobs_ok_def)
  moreover have "steps_ok (j_id ` set (db_jobs d1)) (db_steps d1)" and
    "events_ok (j_id ` set (db_jobs d1)) (next_event d1) (db_events d1)"
    using ok r by (simp_all add: store_ok_def steps_ok_def events_ok_def)
  moreover have "job_ID job \<in> j_id ` set (db_jobs d1)" using r by simp
  ultimately show ?thesis
    using insert_steps_frame [OF d1(2), of "j_id ` set (db_jobs d1)"] ok r(1) by (simp add: store_ok_def)
qed

lemma store_ok_append: "store_ok d \<Longrightarrow> store_ok (snd (append_event j typ data now d))"
  by (fastforce simp: append_event_def store_ok_def events_ok_def sorted_wrt_append list_ex_iff Let_def)

lemma store_ok_step:
  assumes ok: "store_ok d" and "legal c"
  shows "store_ok (store_step (now, c) d)"
proof (cases c)
  case (SqlCreate job)
  with assms show ?thesis by (auto split: sum.splits intro: store_ok_create)
next
  case (SqlClaim j w ms)
  have "store_ok (d\<lparr>db_jobs := map (\<lambda>r. if claimable j w now r then claim_row w ms now r else r) (db_jobs d)\<rparr>)"
    by (rule store_ok_jobs [OF ok]) (auto simp: claim_row_def job_row_ok_def)
  then show ?thesis by (simp add: SqlClaim claim_job_def)
next
  case (SqlExtend j w ms)
  let ?f = "\<lambda>r. r\<lparr>j_lease_expires_at := Some (now + interval_ms ms), j_updated_at := now\<rparr>"
  have "store_ok (d\<lparr>db_jobs := map (\<lambda>r. if owned_running j w r then ?f r else r) (db_jobs d)\<rparr>)"
    by (rule store_ok_jobs [OF ok]) (auto simp: owned_running_def job_row_ok_def)
  then show ?thesis by (simp add: SqlExtend extend_job_def split_beta)
next
  case (SqlFinish j w st err)
  let ?P = "\<lambda>r. j_id r = j \<and> (j_owner r = Some w \<or> w = [] \<and> j_owner r = None)"
  let ?f = "\<lambda>r. r\<lparr>j_status := st, j_error := err, j_finished_at := Some now, j_owner := None,
                   j_lease_expires_at := None, j_updated_at := now\<rparr>"
  have "store_ok (d\<lparr>db_jobs := map (\<lambda>r. if ?P r then ?f r else r) (db_jobs d)\<rparr>)"
    using assms(2) SqlFinish by (intro store_ok_jobs [OF ok]) (auto simp: job_row_ok_def)
  then show ?thesis by (simp add: SqlFinish finish_job_def split_beta)
next
  case (SqlRelease j w)
  have "store_ok (d\<lparr>db_jobs := map (\<lambda>r. if owned_running j w r then release_row now r else r) (db_jobs d)\<rparr>)"
    by (rule store_ok_jobs [OF ok]) (auto simp: release_row_def job_row_ok_def)
  then show ?thesis by (simp add: SqlRelease release_job_def)
next
  case (SqlReclaim ms limit locked)
  let ?P = "\<lambda>r. j_id r \<in> set (expired_ids ms limit locked now d)"
  have "store_ok (d\<lparr>db_jobs := map (\<lambda>r. if ?P r then release_row now r else r) (db_jobs d)\<rparr>)"
    by (rule store_ok_jobs [OF ok]) (auto simp: release_row_def job_row_ok_def)
  then show ?thesis by (simp add: SqlReclaim reclaim_jobs_def Let_def)
next
  case (SqlClaimStep j s w)
  show ?thesis
    by (simp add: SqlClaimStep claim_step_def split_beta) (rule store_ok_steps [OF ok], simp_all)
next
  case (SqlUpdateStep j w res)
  show ?thesis
    by (simp add: SqlUpdateStep update_step_def) (rule store_ok_steps [OF ok], simp_all)
next
  case (SqlAppend j ty data)
  with ok show ?thesis by (simp add: store_ok_append)
next
  case (SqlRegister w host pid q)
  have "distinct (map wk_id (map (\<lambda>r. if wk_id r = w then f r else r) (db_workers d)))"
    if "\<And>r. wk_id (f r) = wk_id r" for f
    using ok map_if_key [of wk_id f "\<lambda>r. wk_id r = w" "db_workers d"] that
    by (simp add: store_ok_def del: map_map)
  with ok show ?thesis
    by (auto simp: SqlRegister register_worker_def store_ok_def list_ex_iff simp del: map_map)
next
  case (SqlHeartbeat w n)
  let ?f = "\<lambda>r. r\<lparr>wk_last_heartbeat_at := now, wk_jobs_claimed := wk_jobs_claimed r + n\<rparr>"
  have "distinct (map wk_id (map (\<lambda>r. if wk_id r = w then ?f r else r) (db_workers d)))"
    using ok map_if_key [of wk_id ?f "\<lambda>r. wk_id r = w" "db_workers d"]
    by (simp add: store_ok_def del: map_map)
  with ok show ?thesis by (simp add: SqlHeartbeat heartbeat_worker_def store_ok_def del: map_map)
next
  case (SqlUnregister w)
  with ok show ?thesis
    by (simp add: unregister_worker_def sql_delete_def store_ok_def distinct_map_filter)
next
  case (SqlPrune ms)
  with ok show ?thesis
    by (simp add: prune_workers_def sql_delete_def store_ok_def distinct_map_filter)
qed

end
