(* ===== verification/Store_Lease.thy ===== *)
theory Store_Lease
  imports Store_Spec
begin

text \<open>
  The lease of \<open>workflow_jobs\<close>: each statement as its effect on the row of one job, and the
  interpretation of the lease contract on the table. A row is found by its primary key.
\<close>

section \<open>The row of a job\<close>

lemma find_map_key:
  assumes "\<And>r. g (h r) = g r"
  shows "find (\<lambda>r. g r = k) (map h rows) = map_option h (find (\<lambda>r. g r = k) rows)"
  by (induction rows) (simp_all add: assms)

lemma select_job_update:
  assumes "\<And>r. j_id (f r) = j_id r"
  shows "select_job j (d\<lparr>db_jobs := map (\<lambda>r. if P r then f r else r) (db_jobs d)\<rparr>) =
    map_option (\<lambda>r. if P r then f r else r) (select_job j d)"
  unfolding select_job_def by (simp add: find_map_key assms)

lemma select_jobD: "select_job j d = Some r \<Longrightarrow> r \<in> set (db_jobs d) \<and> j_id r = j"
  unfolding select_job_def by (auto simp: find_Some_iff)

lemma select_job_None: "select_job j d = None \<longleftrightarrow> j \<notin> j_id ` set (db_jobs d)"
  unfolding select_job_def by (auto simp: find_None_iff)

lemma select_job_unique:
  assumes "jobs_ok (db_jobs d)" and "r \<in> set (db_jobs d)"
  shows "select_job (j_id r) d = Some r"
proof (cases "select_job (j_id r) d")
  case None
  with assms(2) show ?thesis by (auto simp: select_job_None)
next
  case (Some r')
  with select_jobD [OF Some] assms unique_key [of j_id "db_jobs d"] show ?thesis
    by (auto simp: jobs_ok_def)
qed

lemma select_job_ok: "store_ok d \<Longrightarrow> select_job j d = Some r \<Longrightarrow> job_row_ok r"
  by (auto simp: store_ok_def jobs_ok_def dest!: select_jobD)

lemma find_append: "find P (xs @ ys) = (case find P xs of None \<Rightarrow> find P ys | Some x \<Rightarrow> Some x)"
  by (induction xs) auto

lemma insert_steps_other:
  "insert_steps i n ss rs d = Inr d' \<Longrightarrow> i \<noteq> j \<Longrightarrow> select_steps j d' = select_steps j d"
proof (induction i n ss rs d rule: insert_steps.induct)
  case (3 i n s ss r rs d)
  from "3.prems" obtain d1 where d1: "insert_step i n s r d = Inr d1" "insert_steps i (n + 1) ss rs d1 = Inr d'"
    by (auto split: sum.splits)
  from d1(1) "3.prems"(2) have "select_steps j d1 = select_steps j d"
    by (auto simp: insert_step_def select_steps_def split: if_splits)
  with "3.IH" [OF d1 "3.prems"(2)] show ?case by simp
qed auto

text \<open>Whether some row of a job satisfies a predicate, through its key.\<close>

lemma row_exists:
  assumes "store_ok d" and "\<And>r. P r \<Longrightarrow> j_id r = j"
  shows "(\<exists>r\<in>set (db_jobs d). P r) \<longleftrightarrow> (\<exists>r. select_job j d = Some r \<and> P r)"
  using assms select_job_unique [of d] select_jobD [of j d] by (fastforce simp: store_ok_def)

lemma list_ex_owner:
  assumes "store_ok d"
  shows "list_ex (\<lambda>q. j_id q = j \<and> P q) (db_jobs d) \<longleftrightarrow> (\<exists>r. select_job j d = Some r \<and> P r)"
  using row_exists [OF assms, of "\<lambda>q. j_id q = j \<and> P q" j] by (auto simp: list_ex_iff dest: select_jobD)

lemma update_one:
  assumes "store_ok d" and "\<And>r. P r \<Longrightarrow> j_id r = j"
  shows "fst (sql_update P f (db_jobs d)) = (if \<exists>r. select_job j d = Some r \<and> P r then 1 else 0)"
  using row_exists [OF assms] length_filter_unique [of j_id "db_jobs d" P j] assms
  by (simp add: sql_update_count store_ok_def jobs_ok_def)

section \<open>The statements on one row\<close>

lemma select_claim:
  "select_job i (snd (claim_job j w ms now d)) =
   map_option (\<lambda>r. if claimable j w now r then claim_row w ms now r else r) (select_job i d)"
  by (simp add: claim_job_def select_job_update claim_row_def)

lemma claim_answer:
  assumes "store_ok d"
  shows "fst (claim_job j w ms now d) =
    (case select_job j d of None \<Rightarrow> None
     | Some r \<Rightarrow> if claimable j w now r then Some (j_attempts r + 1) else None)"
proof (cases "find (claimable j w now) (db_jobs d)")
  case None
  then have "\<not> claimable j w now r" if "select_job j d = Some r" for r
    using select_jobD [OF that] by (auto simp: find_None_iff)
  with None show ?thesis by (auto simp: claim_job_def split: option.splits)
next
  case (Some r)
  then have r: "r \<in> set (db_jobs d)" "claimable j w now r" by (auto simp: find_Some_iff)
  then have "select_job j d = Some r"
    using select_job_unique [of d r] assms by (auto simp: store_ok_def claimable_def)
  with Some r show ?thesis by (simp add: claim_job_def claim_row_def)
qed

lemma select_extend:
  "select_job i (snd (extend_job j w ms now d)) =
   map_option (\<lambda>r. if owned_running j w r
      then r\<lparr>j_lease_expires_at := Some (now + interval_ms ms), j_updated_at := now\<rparr> else r) (select_job i d)"
  by (simp add: extend_job_def split_beta select_job_update)

lemma extend_answer:
  "store_ok d \<Longrightarrow> fst (extend_job j w ms now d) =
   (if \<exists>r. select_job j d = Some r \<and> owned_running j w r then 1 else 0)"
  using update_one [of d "owned_running j w" j] by (simp add: extend_job_def split_beta owned_running_def)

lemma select_finish:
  "select_job i (snd (finish_job j w st err now d)) =
   map_option (\<lambda>r. if j_id r = j \<and> (j_owner r = Some w \<or> w = [] \<and> j_owner r = None)
      then r\<lparr>j_status := st, j_error := err, j_finished_at := Some now, j_owner := None,
             j_lease_expires_at := None, j_updated_at := now\<rparr> else r) (select_job i d)"
  by (simp add: finish_job_def split_beta select_job_update)

lemma finish_answer:
  "store_ok d \<Longrightarrow> fst (finish_job j w st err now d) =
   (if \<exists>r. select_job j d = Some r \<and> (j_owner r = Some w \<or> w = [] \<and> j_owner r = None) then 1 else 0)"
  using update_one [of d "\<lambda>r. j_id r = j \<and> (j_owner r = Some w \<or> w = [] \<and> j_owner r = None)" j]
  by (auto simp: finish_job_def split_beta dest: select_jobD)

lemma select_release:
  "select_job i (release_job j w now d) =
   map_option (\<lambda>r. if owned_running j w r then release_row now r else r) (select_job i d)"
  by (simp add: release_job_def select_job_update release_row_def)

lemma select_reclaim:
  "select_job i (snd (reclaim_jobs ms limit locked now d)) =
   map_option (\<lambda>r. if j_id r \<in> set (expired_ids ms limit locked now d) then release_row now r else r)
     (select_job i d)"
  by (simp add: reclaim_jobs_def Let_def select_job_update release_row_def)

lemma expired_idsD:
  "i \<in> set (expired_ids ms limit locked now d) \<Longrightarrow>
   \<exists>r\<in>set (db_jobs d). j_id r = i \<and> expired ms now r \<and> \<not> locked i"
  by (auto simp: expired_ids_def dest!: in_set_takeD)

lemmas select_simps = select_claim select_extend select_finish select_release select_reclaim

lemma claim_row_simps [simp]:
  "j_id (claim_row w ms now r) = j_id r" "j_owner (claim_row w ms now r) = Some w"
  "j_status (claim_row w ms now r) = Running" "j_attempts (claim_row w ms now r) = j_attempts r + 1"
  "j_lease_expires_at (claim_row w ms now r) = Some (now + ms * 1000)"
  by (simp_all add: claim_row_def interval_ms_def)

text \<open>Which tables a statement leaves alone.\<close>

lemma job_statements_frame [simp]:
  "db_steps (snd (claim_job j w ms now d)) = db_steps d" "db_events (snd (claim_job j w ms now d)) = db_events d"
  "db_steps (snd (extend_job j w ms now d)) = db_steps d" "db_events (snd (extend_job j w ms now d)) = db_events d"
  "db_steps (snd (finish_job j w st err now d)) = db_steps d"
  "db_events (snd (finish_job j w st err now d)) = db_events d"
  "db_steps (release_job j w now d) = db_steps d" "db_events (release_job j w now d) = db_events d"
  "db_steps (snd (reclaim_jobs ms limit locked now d)) = db_steps d"
  "db_events (snd (reclaim_jobs ms limit locked now d)) = db_events d"
  by (simp_all add: claim_job_def extend_job_def finish_job_def release_job_def reclaim_jobs_def split_beta Let_def)

lemma other_statements_frame [simp]:
  "db_jobs (snd (claim_step j s w now d)) = db_jobs d" "db_events (snd (claim_step j s w now d)) = db_events d"
  "db_jobs (update_step j w res now d) = db_jobs d" "db_events (update_step j w res now d) = db_events d"
  "db_jobs (snd (append_event j ty data now d)) = db_jobs d"
  "db_steps (snd (append_event j ty data now d)) = db_steps d"
  "db_jobs (register_worker w host pid q now d) = db_jobs d"
  "db_steps (register_worker w host pid q now d) = db_steps d"
  "db_events (register_worker w host pid q now d) = db_events d"
  "db_jobs (heartbeat_worker w n now d) = db_jobs d" "db_steps (heartbeat_worker w n now d) = db_steps d"
  "db_events (heartbeat_worker w n now d) = db_events d"
  "db_jobs (unregister_worker w d) = db_jobs d" "db_steps (unregister_worker w d) = db_steps d"
  "db_events (unregister_worker w d) = db_events d"
  "db_jobs (snd (prune_workers ms now d)) = db_jobs d" "db_steps (snd (prune_workers ms now d)) = db_steps d"
  "db_events (snd (prune_workers ms now d)) = db_events d"
  by (simp_all add: claim_step_def update_step_def append_event_def register_worker_def heartbeat_worker_def
      unregister_worker_def prune_workers_def split_beta Let_def)

lemma select_job_frame: "db_jobs d' = db_jobs d \<Longrightarrow> select_job j d' = select_job j d"
  by (simp add: select_job_def)

lemma select_steps_frame: "db_steps d' = db_steps d \<Longrightarrow> select_steps j d' = select_steps j d"
  by (simp add: select_steps_def)

lemmas select_job_frames [simp] =
  other_statements_frame(1,3,5,7,10,13,16) [THEN select_job_frame]

lemmas select_steps_frames [simp] =
  job_statements_frame(1,3,5,7,9) [THEN select_steps_frame]
  other_statements_frame(6,8,11,14,17) [THEN select_steps_frame]

section \<open>The lease contract\<close>

definition store_held :: "db \<Rightarrow> string \<Rightarrow> (string \<times> int) option" where
  "store_held d j =
     (case select_job j d of
        None \<Rightarrow> None
      | Some r \<Rightarrow> (case (j_owner r, j_lease_expires_at r) of (Some w, Some t) \<Rightarrow> Some (w, t) | _ \<Rightarrow> None))"

text \<open>A renewal that asks for the deadline \<open>t\<close>, and a sweep with a grace period in milliseconds.\<close>

definition store_extend :: "int \<Rightarrow> string \<Rightarrow> string \<Rightarrow> int \<Rightarrow> db \<Rightarrow> bool \<times> db" where
  "store_extend ms j w t d = (case extend_job j w ms (t - interval_ms ms) d of (n, d') \<Rightarrow> (n = 1, d'))"

definition store_sweep :: "nat \<Rightarrow> int \<Rightarrow> (string \<Rightarrow> bool) \<Rightarrow> int \<Rightarrow> db \<Rightarrow> db" where
  "store_sweep grace limit locked now d = snd (reclaim_jobs (int grace) limit locked now d)"

lemma store_held_Some:
  "store_held d j = Some (w, t) \<longleftrightarrow>
   (\<exists>r. select_job j d = Some r \<and> j_owner r = Some w \<and> j_lease_expires_at r = Some t)"
  by (auto simp: store_held_def split: option.splits)

lemma held_running:
  assumes "store_ok d"
  shows "(\<exists>t. store_held d j = Some (w, t)) \<longleftrightarrow> (\<exists>r. select_job j d = Some r \<and> owned_running j w r)"
  using select_job_ok [OF assms, of j]
  by (fastforce simp: store_held_Some owned_running_def job_row_ok_def dest: select_jobD)

interpretation sl: leases store_ok store_held "store_extend ms" "store_sweep grace limit locked"
  for ms grace limit locked
proof unfold_locales
  fix d :: db and j w t assume ok: "store_ok d"
  show "store_ok (snd (store_extend ms j w t d))"
    using store_ok_step [OF ok, of "SqlExtend j w ms" "t - interval_ms ms"]
    by (simp add: store_extend_def split_beta)
  show yes: "fst (store_extend ms j w t d) \<longleftrightarrow> (\<exists>t0. store_held d j = Some (w, t0))"
    using extend_answer [OF ok, of j w ms "t - interval_ms ms"] held_running [OF ok, of j w]
    by (simp add: store_extend_def split_beta)
  show "store_held (snd (store_extend ms j w t d)) i =
      (if i = j \<and> fst (store_extend ms j w t d) then Some (w, t) else store_held d i)" for i
  proof (cases "select_job i d")
    case None
    then have "\<not> (i = j \<and> fst (store_extend ms j w t d))" by (auto simp: yes store_held_Some)
    with None show ?thesis
      by (auto simp: store_held_def store_extend_def split_beta select_extend)
  next
    case (Some r)
    have "i = j \<and> fst (store_extend ms j w t d) \<longleftrightarrow> owned_running j w r"
      using Some select_jobD [OF Some] by (auto simp: yes held_running [OF ok] owned_running_def)
    with Some show ?thesis
      by (auto simp: store_held_def store_extend_def split_beta select_extend owned_running_def)
  qed
next
  fix d :: db and t assume ok: "store_ok d"
  show "store_ok (store_sweep grace limit locked t d)"
    using store_ok_step [OF ok, of "SqlReclaim (int grace) limit locked" t] by (simp add: store_sweep_def)
  show "store_held (store_sweep grace limit locked t d) j = Some (w, t')"
    if held: "store_held d j = Some (w, t')" "t < t'" for j w t'
  proof -
    obtain r where r: "select_job j d = Some r" "j_lease_expires_at r = Some t'"
      using held by (auto simp: store_held_Some)
    have "j_id r \<notin> set (expired_ids (int grace) limit locked t d)"
    proof
      assume "j_id r \<in> set (expired_ids (int grace) limit locked t d)"
      then obtain r' where "r' \<in> set (db_jobs d)" "j_id r' = j_id r" "expired (int grace) t r'"
        by (auto dest!: expired_idsD)
      then have "expired (int grace) t r"
        using r ok select_job_unique [of d r'] select_jobD [OF r(1)] by (auto simp: store_ok_def)
      with r(2) held(2) show False by (simp add: expired_def interval_ms_def)
    qed
    with held r show ?thesis by (auto simp: store_held_Some store_sweep_def select_reclaim)
  qed
  show "store_held d j = Some h" if "store_held (store_sweep grace limit locked t d) j = Some h" for j h
    using that
    by (auto simp: store_held_def store_sweep_def select_reclaim release_row_def split: option.splits if_splits)
qed

end
