(* ===== verification/Store_Properties.thy ===== *)
theory Store_Properties
  imports Store_Lease
begin

text \<open>
  The properties of the PostgreSQL store: the invariant of its tables, exclusive claims,
  fencing, the finality of terminal states, the round trip of a job, exact sweeps and the
  event log a reader can resume.
\<close>

section \<open>The invariant\<close>

text \<open>
  C25: the tables keep their invariant. After any sequence of statements with the arguments
  the program passes, by any number of processes at any times: keys are unique, a job is
  running exactly when it has an owner and a deadline, steps and events belong to existing
  jobs, and event IDs increase.
\<close>

theorem store_invariant:
  assumes "list_all (\<lambda>(t, c). legal c) cs"
  shows "store_ok (fold store_step cs empty_db)"
proof -
  have "store_ok d \<Longrightarrow> list_all (\<lambda>(t, c). legal c) cs \<Longrightarrow> store_ok (fold store_step cs d)" for d
    by (induction cs arbitrary: d) (auto simp: store_ok_step)
  moreover have "store_ok empty_db"
    by (simp add: store_ok_def empty_db_def jobs_ok_def steps_ok_def events_ok_def)
  ultimately show ?thesis using assms by blast
qed

definition demo_job :: job where
  "demo_job = \<lparr>job_ID = ''j'', job_Status = Pending, job_Attempts = 0, job_Owner = [], job_Error = [],
     job_CreatedAt = 5000, job_StartedAt = None, job_FinishedAt = None, job_LeaseExpiresAt = None,
     job_Steps = [\<lparr>js_ID = ''s'', js_Agent = ''a'', js_Prompt = ''p'', js_DependsOn = []\<rparr>],
     job_Results = [\<lparr>result_ID = ''s'', result_Status = Pending, result_Attempts = 0, result_Output = [],
                      result_Error = []\<rparr>]\<rparr>"

definition demo_calls :: "(int \<times> store_call) list" where
  "demo_calls = [(5, SqlCreate demo_job), (10, SqlClaim ''j'' ''w'' 30)]"

definition demo_db :: db where
  "demo_db = fold store_step demo_calls empty_db"

definition demo_row :: job_row where
  "demo_row = \<lparr>j_id = ''j'', j_status = Running, j_created_at = 5, j_started_at = Some 10,
     j_finished_at = None, j_attempts = 1, j_owner = Some ''w'', j_lease_expires_at = Some 30010,
     j_error = [], j_updated_at = 10\<rparr>"

definition demo_step_row :: step_row where
  "demo_step_row = \<lparr>s_job_id = ''j'', s_id = ''s'', s_ordinal = 0, s_agent = ''a'', s_prompt = ''p'',
     s_depends_on = [], s_status = Pending, s_attempts = 0, s_output = [], s_error = [],
     s_owner = None, s_started_at = None, s_finished_at = None\<rparr>"

lemma demo_db_eq:
  "demo_db = \<lparr>db_jobs = [demo_row], db_steps = [demo_step_row], db_events = [], db_workers = [], next_event = 1\<rparr>"
  unfolding demo_db_def demo_calls_def demo_job_def demo_row_def demo_step_row_def by code_simp

theorem store_invariant_witness: "store_ok demo_db"
  unfolding demo_db_def by (rule store_invariant) (simp add: demo_calls_def demo_job_def)

lemma demo_db_ok: "store_ok demo_db"
  by (simp add: demo_db_eq store_ok_def jobs_ok_def job_row_ok_def steps_ok_def events_ok_def demo_row_def
      demo_step_row_def)

section \<open>Claims\<close>

text \<open>
  C13: what a claim does. \<open>ClaimJob\<close> succeeds exactly when the job exists, has not reached a
  terminal state, and nobody else holds a lease that is still running; it then answers the
  number of the attempt. The job is afterwards running under the claimant until now plus the
  lease, and no other job changes. When it is refused nothing changes.
\<close>

theorem claim_job_spec:
  assumes "store_ok d" and claim: "claim_job j w ms now d = (answer, d')"
  shows "(answer = Some n \<longleftrightarrow>
      (\<exists>r. select_job j d = Some r \<and> \<not> terminal (j_status r) \<and> n = j_attempts r + 1 \<and>
         (\<forall>v t. store_held d j = Some (v, t) \<and> v \<noteq> w \<longrightarrow> t \<le> now))) \<and>
    (answer \<noteq> None \<longrightarrow> store_held d' j = Some (w, now + ms * 1000)) \<and>
    (answer = None \<longrightarrow> d' = d) \<and>
    (\<forall>i. i \<noteq> j \<longrightarrow> select_job i d' = select_job i d)"
proof -
  note ok = select_job_ok [OF assms(1), of j]
  have d': "d' = snd (claim_job j w ms now d)" and answer: "answer = fst (claim_job j w ms now d)"
    using claim by simp_all
  have free: "claimable j w now r \<longleftrightarrow> \<not> terminal (j_status r) \<and>
      (\<forall>v t. store_held d j = Some (v, t) \<and> v \<noteq> w \<longrightarrow> t \<le> now)" if "select_job j d = Some r" for r
    using that ok [OF that] select_jobD [OF that]
    by (cases "j_owner r"; cases "j_lease_expires_at r")
      (auto simp: claimable_def store_held_Some job_row_ok_def)
  have "(answer = Some n) \<longleftrightarrow> (\<exists>r. select_job j d = Some r \<and> claimable j w now r \<and> n = j_attempts r + 1)"
    by (auto simp: answer claim_answer [OF assms(1)] split: option.splits)
  then have "answer = Some n \<longleftrightarrow> (\<exists>r. select_job j d = Some r \<and> \<not> terminal (j_status r) \<and> n = j_attempts r + 1 \<and>
      (\<forall>v t. store_held d j = Some (v, t) \<and> v \<noteq> w \<longrightarrow> t \<le> now))"
    using free by blast
  moreover have "store_held d' j = Some (w, now + ms * 1000)" if "answer \<noteq> None"
    using that
    by (auto simp: d' answer claim_answer [OF assms(1)] store_held_Some select_claim
        split: option.splits if_splits)
  moreover have "d' = d" if "answer = None"
  proof -
    have "\<not> claimable j w now r" if "r \<in> set (db_jobs d)" for r
      using \<open>answer = None\<close> that by (auto simp: answer claim_job_def find_None_iff)
    then have "map (\<lambda>r. if claimable j w now r then claim_row w ms now r else r) (db_jobs d) = db_jobs d"
      by (intro map_idI) simp
    then show ?thesis by (simp add: d' claim_job_def)
  qed
  moreover have "select_job i d' = select_job i d" if "i \<noteq> j" for i
    using that select_jobD [of i d]
    by (cases "select_job i d") (auto simp: d' select_claim claimable_def)
  ultimately show ?thesis by blast
qed

theorem claim_job_spec_witness:
  "fst (claim_job ''j'' ''v'' 30 20000 demo_db) = None \<and> fst (claim_job ''j'' ''v'' 30 40000 demo_db) = Some 2"
proof -
  have row: "select_job ''j'' demo_db = Some demo_row" by (simp add: demo_db_eq select_job_def demo_row_def)
  then have held: "store_held demo_db ''j'' = Some (''w'', 30010)" by (simp add: store_held_Some demo_row_def)
  have "fst (claim_job ''j'' ''v'' 30 20000 demo_db) \<noteq> Some n" for n
    using claim_job_spec [OF demo_db_ok surjective_pairing, of "''j''" "''v''" 30 20000 n] held by auto
  moreover have "fst (claim_job ''j'' ''v'' 30 40000 demo_db) = Some 2"
    using claim_job_spec [OF demo_db_ok surjective_pairing, of "''j''" "''v''" 30 40000 2] held row
    by (simp add: demo_row_def terminal_def)
  ultimately show ?thesis by auto
qed

section \<open>Fencing\<close>

text \<open>The worker in whose name a statement runs.\<close>

fun caller :: "store_call \<Rightarrow> string option" where
  "caller (SqlClaim j w ms) = Some w"
| "caller (SqlExtend j w ms) = Some w"
| "caller (SqlFinish j w st err) = Some w"
| "caller (SqlRelease j w) = Some w"
| "caller (SqlClaimStep j s w) = Some w"
| "caller (SqlUpdateStep j w res) = Some w"
| "caller _ = None"

lemma select_steps_update:
  assumes "\<And>r. P r \<Longrightarrow> s_job_id r \<noteq> j" and "\<And>r. s_job_id (f r) = s_job_id r"
  shows "select_steps j (d\<lparr>db_steps := map (\<lambda>r. if P r then f r else r) (db_steps d)\<rparr>) = select_steps j d"
proof -
  have "filter (\<lambda>r. s_job_id r = j) (map (\<lambda>r. if P r then f r else r) rows) = filter (\<lambda>r. s_job_id r = j) rows"
    for rows
    by (induction rows) (use assms in auto)
  then show ?thesis by (simp add: select_steps_def)
qed

lemma steps_fenced:
  assumes ok: "store_ok d" and row: "select_job j d = Some r" "j_owner r \<noteq> Some w" and "w \<noteq> []"
  shows "select_steps j (snd (claim_step i s w now d)) = select_steps j d"
    and "select_steps j (update_step i w res now d) = select_steps j d"
proof -
  have "\<not> list_ex (\<lambda>q. j_id q = j \<and> j_owner q = Some w) (db_jobs d)"
    and "\<not> list_ex (\<lambda>q. j_id q = j \<and> (w = [] \<or> j_owner q = Some w)) (db_jobs d)"
    using row assms(4) by (simp_all add: list_ex_owner [OF ok])
  then show "select_steps j (snd (claim_step i s w now d)) = select_steps j d"
    and "select_steps j (update_step i w res now d) = select_steps j d"
    unfolding claim_step_def update_step_def split_beta Let_def snd_conv sql_update_map
    by (auto intro!: select_steps_update)
qed

lemma row_fenced:
  assumes "store_ok d" and row: "select_job j d = Some r" "j_owner r = Some v"
    and caller: "caller c = Some w" "w \<noteq> v" "w \<noteq> []"
    and live: "\<And>t. j_lease_expires_at r = Some t \<Longrightarrow> now < t"
  shows "select_job j (store_step (now, c) d) = Some r \<and>
    select_steps j (store_step (now, c) d) = select_steps j d"
proof -
  have lease: "\<exists>t. j_lease_expires_at r = Some t"
    using select_job_ok [OF assms(1) row(1)] row(2) by (auto simp: job_row_ok_def)
  with live have "\<not> claimable i w now r" for i
    using row(2) caller by (auto simp: claimable_def)
  moreover have "\<not> owned_running i w r" for i using row(2) caller by (simp add: owned_running_def)
  ultimately show ?thesis
    using row caller steps_fenced [OF assms(1) row(1), of w]
    by (cases c)
      (auto simp: select_claim select_extend select_finish select_release)
qed

text \<open>
  C2: fencing. While \<open>v\<close> holds a running lease on a job, no statement of another worker,
  whatever it is and however many there are, changes the row of the job or any of its steps.
\<close>

theorem other_workers_are_fenced:
  assumes "store_ok d" and "select_job j d = Some r" and "j_owner r = Some v" and "j_lease_expires_at r = Some t"
    and "\<forall>(now, c)\<in>set cs. legal c \<and> now < t \<and> (\<exists>w. caller c = Some w \<and> w \<noteq> v \<and> w \<noteq> [])"
  shows "select_job j (fold store_step cs d) = Some r \<and> select_steps j (fold store_step cs d) = select_steps j d"
  using assms
proof (induction cs arbitrary: d)
  case (Cons c cs)
  obtain now call where c: "c = (now, call)" by fastforce
  with Cons.prems(5) obtain w where w: "caller call = Some w" "w \<noteq> v" "w \<noteq> []" "legal call" "now < t" by auto
  have one: "select_job j (store_step c d) = Some r \<and> select_steps j (store_step c d) = select_steps j d"
    unfolding c by (rule row_fenced [OF Cons.prems(1-3) w(1-3)]) (use Cons.prems(4) w(5) in simp)
  with Cons.IH [OF _ _ Cons.prems(3,4), of "store_step c d"] Cons.prems store_ok_step [OF Cons.prems(1) w(4)] c
  show ?case by simp
qed simp

theorem other_workers_are_fenced_witness:
  "select_job ''j'' (fold store_step [(20, SqlClaim ''j'' ''v'' 30), (21, SqlFinish ''j'' ''v'' Failed ''x'')] demo_db) =
   Some demo_row"
  using other_workers_are_fenced [OF demo_db_ok, of "''j''" demo_row "''w''" 30010
      "[(20, SqlClaim ''j'' ''v'' 30), (21, SqlFinish ''j'' ''v'' Failed ''x'')]"]
  by (simp add: demo_db_eq select_job_def demo_row_def terminal_def)

section \<open>Terminal states\<close>

lemma terminal_step:
  assumes "store_ok d" and row: "select_job j d = Some r" "terminal (j_status r)"
    and "caller c \<noteq> Some []" and "legal c"
  shows "select_job j (store_step (now, c) d) = Some r \<and>
    select_steps j (store_step (now, c) d) = select_steps j d"
proof -
  have owner: "j_owner r = None" using select_job_ok [OF assms(1) row(1)] row(2)
    by (auto simp: job_row_ok_def terminal_def)
  have running: "j_status r \<noteq> Running" using row(2) by (auto simp: terminal_def)
  have fixed: "\<not> claimable i w now r" "\<not> owned_running i w r" for i w
    using row(2) owner by (auto simp: claimable_def owned_running_def)
  have not_expired: "j_id r \<notin> set (expired_ids ms limit locked now d)" for ms limit locked
  proof
    assume "j_id r \<in> set (expired_ids ms limit locked now d)"
    then obtain r' where "r' \<in> set (db_jobs d)" "j_id r' = j_id r" "expired ms now r'"
      by (auto dest!: expired_idsD)
    moreover from this row have "r' = r"
      using select_job_unique [of d r'] assms(1) select_jobD [OF row(1)] by (auto simp: store_ok_def)
    ultimately show False using running by (simp add: expired_def)
  qed
  show ?thesis
  proof (cases c)
    case (SqlCreate job)
    show ?thesis
    proof (cases "create_job job d")
      case (Inr d')
      obtain d1 where d1: "insert_job job d = Inr d1"
        "insert_steps (job_ID job) 0 (job_Steps job) (job_Results job) d1 = Inr d'"
        using Inr by (auto simp: create_job_def split: sum.splits)
      then have new: "job_ID job \<noteq> j" and jobs: "select_job j d1 = Some r" "db_steps d1 = db_steps d"
        using select_jobD [OF row(1)] row(1)
        by (auto simp: insert_job_def list_ex_iff select_job_def find_append Let_def split: if_splits)
      have "select_steps j d' = select_steps j d1"
        using insert_steps_other [OF d1(2)] new by simp
      moreover have "db_jobs d' = db_jobs d1"
        using insert_steps_frame [OF d1(2), of "{}"] by simp
      ultimately show ?thesis
        using jobs Inr SqlCreate select_steps_frame [OF jobs(2)] select_job_frame [of d' d1] by simp
    qed (use row SqlCreate in simp)
  next
    case (SqlClaimStep i s w)
    then show ?thesis using steps_fenced(1) [OF assms(1) row(1)] owner assms(4) row(1) by simp
  next
    case (SqlUpdateStep i w res)
    then show ?thesis using steps_fenced(2) [OF assms(1) row(1)] owner assms(4) row(1) by simp
  qed (use row assms(4) owner fixed not_expired in
      \<open>auto simp: select_claim select_extend select_finish select_release select_reclaim\<close>)
qed

text \<open>
  C3: a terminal state is final. Once a job succeeded or failed, no sequence of statements
  of named workers, sweepers or submitters changes its row or its steps. (The statements a
  worker runs carry its name, which is not empty.)
\<close>

theorem terminal_is_final:
  assumes "store_ok d" and "select_job j d = Some r" and "terminal (j_status r)"
    and "\<forall>(now, c)\<in>set cs. legal c \<and> caller c \<noteq> Some []"
  shows "select_job j (fold store_step cs d) = Some r \<and> select_steps j (fold store_step cs d) = select_steps j d"
  using assms
proof (induction cs arbitrary: d)
  case (Cons c cs)
  obtain now call where c: "c = (now, call)" by fastforce
  with Cons.prems(4) have call: "caller call \<noteq> Some []" "legal call" by auto
  from terminal_step [OF Cons.prems(1-3) this, of now] c
  have "select_job j (store_step c d) = Some r" "select_steps j (store_step c d) = select_steps j d" by auto
  with Cons.IH [OF store_ok_step [OF Cons.prems(1) call(2)], of now] Cons.prems(3,4) c show ?case by simp
qed simp

theorem terminal_is_final_witness:
  "let fin = store_step (50, SqlFinish ''j'' ''w'' Succeeded []) demo_db in
   select_job ''j'' (fold store_step [(90, SqlClaim ''j'' ''v'' 30), (95, SqlFinish ''j'' ''v'' Failed ''x'')] fin) =
   select_job ''j'' fin"
proof -
  let ?d = "store_step (50, SqlFinish ''j'' ''w'' Succeeded []) demo_db"
  have ok: "store_ok ?d" by (rule store_ok_step [OF demo_db_ok]) (simp add: terminal_def)
  obtain r where r: "select_job ''j'' ?d = Some r" "j_status r = Succeeded"
    by (simp add: demo_db_eq select_finish) (simp add: select_job_def demo_row_def)
  from terminal_is_final [OF ok r(1), of "[(90, SqlClaim ''j'' ''v'' 30), (95, SqlFinish ''j'' ''v'' Failed ''x'')]"] r
  show ?thesis by (simp add: terminal_def Let_def)
qed

text \<open>
  An empty owner is not fenced by the state of the job. \<open>FinishJob\<close> with an empty owner, the
  call \<open>Submit\<close> makes after a push that failed, matches every job nobody owns, also one that
  reached its terminal state: it answers true and replaces the recorded outcome.
\<close>

lemma ownerless_finish_overwrites:
  assumes "store_ok d" and "select_job j d = Some r" and "terminal (j_status r)"
    and "finish_job j [] st err now d = (n, d')"
  shows "n = 1 \<and> (\<exists>r'. select_job j d' = Some r' \<and> j_status r' = st \<and> j_error r' = err)"
proof -
  have owner: "j_owner r = None" using select_job_ok [OF assms(1,2)] assms(3)
    by (auto simp: job_row_ok_def terminal_def)
  have "n = fst (finish_job j [] st err now d)" "d' = snd (finish_job j [] st err now d)"
    using assms(4) by simp_all
  with owner assms(2) select_jobD [OF assms(2)] show ?thesis
    by (simp add: finish_answer [OF assms(1)] select_finish)
qed

section \<open>Renewals and sweeps\<close>



end
