(* ===== verification/Job_Lifecycle.thy ===== *)
theory Job_Lifecycle
  imports Store_Properties
begin

text \<open>
  The life of a job as an abstract transition system, and the refinement of it by the SQL
  statements: what \<^verbatim>\<open>internal/jobs/store.go\<close> promises about one job, without rows and columns.
  The system has no counterpart in the code; it is the specification.
\<close>

section \<open>The specification\<close>

text \<open>
  A job waits, is leased to a worker up to a deadline, or is over; the number counts its
  attempts.
\<close>

datatype life =
  Waiting int
| Leased string int int
| Over status int

datatype action =
  Take string int
| Renew string int
| GiveBack string
| Sweep int
| Conclude string status

text \<open>One step at time \<open>now\<close>; durations are in milliseconds and times in microseconds.\<close>

inductive life_step :: "int \<Rightarrow> action \<Rightarrow> life \<Rightarrow> life \<Rightarrow> bool" for now where
  claim: "life_step now (Take w ms) (Waiting n) (Leased w (now + ms * 1000) (n + 1))"
| claim_again: "life_step now (Take w ms) (Leased w t n) (Leased w (now + ms * 1000) (n + 1))"
| take_over: "t \<le> now \<Longrightarrow> life_step now (Take w ms) (Leased v t n) (Leased w (now + ms * 1000) (n + 1))"
| renew: "life_step now (Renew w ms) (Leased w t n) (Leased w (now + ms * 1000) n)"
| give_back: "life_step now (GiveBack w) (Leased w t n) (Waiting n)"
| sweep: "t \<le> now - ms * 1000 \<Longrightarrow> life_step now (Sweep ms) (Leased w t n) (Waiting n)"
| conclude: "life_step now (Conclude w st) (Leased w t n) (Over st n)"
| reject: "life_step now (Conclude [] st) (Waiting n) (Over st n)"
| rewrite: "life_step now (Conclude [] st) (Over st' n) (Over st n)"

inductive_simps life_step_simps [simp]:
  "life_step now a (Waiting n) l"
  "life_step now a (Leased w t n) l"
  "life_step now a (Over st n) l"

text \<open>An action has one result.\<close>

lemma life_step_deterministic: "life_step now a l l1 \<Longrightarrow> life_step now a l l2 \<Longrightarrow> l1 = l2"
  by (cases l) auto

section \<open>The statements as actions\<close>

definition life_of :: "job_row \<Rightarrow> life" where
  "life_of r =
     (case (j_owner r, j_lease_expires_at r) of
        (Some w, Some t) \<Rightarrow> Leased w t (j_attempts r)
      | _ \<Rightarrow> if terminal (j_status r) then Over (j_status r) (j_attempts r) else Waiting (j_attempts r))"

definition job_life :: "string \<Rightarrow> db \<Rightarrow> life option" where
  "job_life j d = map_option life_of (select_job j d)"

text \<open>The action of a statement on the job \<open>j\<close>.\<close>

fun action_on :: "string \<Rightarrow> store_call \<Rightarrow> action option" where
  "action_on j (SqlClaim i w ms) = (if i = j then Some (Take w ms) else None)"
| "action_on j (SqlExtend i w ms) = (if i = j then Some (Renew w ms) else None)"
| "action_on j (SqlFinish i w st err) = (if i = j then Some (Conclude w st) else None)"
| "action_on j (SqlRelease i w) = (if i = j then Some (GiveBack w) else None)"
| "action_on j (SqlReclaim ms limit locked) = Some (Sweep ms)"
| "action_on j _ = None"

text \<open>
  A statement that has an action performs it whenever the specification allows it; a sweep
  may pass a job over, because of its limit or because the row is locked.
\<close>

definition must :: "action \<Rightarrow> bool" where
  "must a = (case a of Sweep ms \<Rightarrow> False | _ \<Rightarrow> True)"

definition simulates :: "int \<Rightarrow> action option \<Rightarrow> life \<Rightarrow> life \<Rightarrow> bool" where
  "simulates now act l l' \<longleftrightarrow>
     (case act of
        None \<Rightarrow> l' = l
      | Some a \<Rightarrow> life_step now a l l' \<or> l' = l \<and> (must a \<longrightarrow> (\<forall>k. \<not> life_step now a l k)))"

inductive life_path :: "string \<Rightarrow> (int \<times> store_call) list \<Rightarrow> life \<Rightarrow> life \<Rightarrow> bool" for j where
  stop: "life_path j [] l l"
| move: "simulates now (action_on j c) l l1 \<Longrightarrow> life_path j cs l1 l2 \<Longrightarrow> life_path j ((now, c) # cs) l l2"

inductive_simps life_path_simps:
  "life_path j [] l l'"
  "life_path j ((now, c) # cs) l l'"

section \<open>The refinement\<close>

text \<open>The three forms of a row that the invariant of the store leaves.\<close>

lemma job_row_cases:
  assumes "job_row_ok r"
  obtains w t where "j_status r = Running" "j_owner r = Some w" "j_lease_expires_at r = Some t"
      "life_of r = Leased w t (j_attempts r)"
  | "j_status r = Pending" "j_owner r = None" "j_lease_expires_at r = None" "life_of r = Waiting (j_attempts r)"
  | "terminal (j_status r)" "j_status r \<noteq> Running" "j_owner r = None" "j_lease_expires_at r = None"
      "life_of r = Over (j_status r) (j_attempts r)"
  using assms by (auto simp: job_row_ok_def life_of_def terminal_def split: option.splits)

lemma life_released [simp]: "life_of (release_row now r) = Waiting (j_attempts r)"
  by (simp add: life_of_def release_row_def terminal_def)

lemma claim_simulates:
  "job_row_ok r \<Longrightarrow> simulates now (action_on (j_id r) (SqlClaim j w ms)) (life_of r)
     (life_of (if claimable j w now r then claim_row w ms now r else r))"
  by (erule job_row_cases)
    (auto simp: simulates_def claimable_def must_def life_of_def [of "claim_row w ms now r"] terminal_def)

lemma extend_simulates:
  "job_row_ok r \<Longrightarrow> simulates now (action_on (j_id r) (SqlExtend j w ms)) (life_of r)
     (life_of (if owned_running j w r
        then r\<lparr>j_lease_expires_at := Some (now + interval_ms ms), j_updated_at := now\<rparr> else r))"
  by (erule job_row_cases)
    (auto simp: simulates_def owned_running_def must_def life_of_def [of "r\<lparr>j_lease_expires_at := u, j_updated_at := v\<rparr>" for u v]
      interval_ms_def terminal_def)

lemma release_simulates:
  "job_row_ok r \<Longrightarrow> simulates now (action_on (j_id r) (SqlRelease j w)) (life_of r)
     (life_of (if owned_running j w r then release_row now r else r))"
  by (erule job_row_cases)
    (auto simp: simulates_def owned_running_def must_def terminal_def)

lemma finish_simulates:
  "job_row_ok r \<Longrightarrow> terminal st \<Longrightarrow> simulates now (action_on (j_id r) (SqlFinish j w st err)) (life_of r)
     (life_of (if j_id r = j \<and> (j_owner r = Some w \<or> w = [] \<and> j_owner r = None)
        then r\<lparr>j_status := st, j_error := err, j_finished_at := Some now, j_owner := None,
               j_lease_expires_at := None, j_updated_at := now\<rparr> else r))"
  by (erule job_row_cases)
    (auto simp: simulates_def must_def
      life_of_def [of "r\<lparr>j_status := a, j_error := b, j_finished_at := c, j_owner := e, j_lease_expires_at := f, j_updated_at := g\<rparr>"
        for a b c e f g])

lemma reclaim_simulates:
  assumes ok: "store_ok d" and row: "select_job j d = Some r"
  shows "simulates now (action_on j (SqlReclaim ms limit locked)) (life_of r)
    (life_of (if j_id r \<in> set (expired_ids ms limit locked now d) then release_row now r else r))"
proof (cases "j_id r \<in> set (expired_ids ms limit locked now d)")
  case True
  then obtain r' where "r' \<in> set (db_jobs d)" "j_id r' = j_id r" "expired ms now r'"
    by (auto dest!: expired_idsD)
  then have "expired ms now r"
    using select_job_unique [of d r'] ok row select_jobD [OF row] by (auto simp: store_ok_def)
  with True select_job_ok [OF ok row] show ?thesis
    by (elim job_row_cases)
      (auto simp: simulates_def expired_def interval_ms_def terminal_def)
qed (simp add: simulates_def must_def)

lemma create_keeps_row:
  assumes "create_job job d = Inr d'" and "select_job j d = Some r"
  shows "select_job j d' = Some r"
proof -
  obtain d1 where d1: "insert_job job d = Inr d1"
    "insert_steps (job_ID job) 0 (job_Steps job) (job_Results job) d1 = Inr d'"
    using assms(1) by (auto simp: create_job_def split: sum.splits)
  then have "select_job j d1 = Some r"
    using assms(2) by (auto simp: insert_job_def select_job_def find_append Let_def split: if_splits)
  moreover have "db_jobs d' = db_jobs d1" using insert_steps_frame [OF d1(2), of "{}"] by simp
  ultimately show ?thesis using select_job_frame by metis
qed

lemma store_step_simulates:
  assumes ok: "store_ok d" and "legal c" and row: "select_job j d = Some r"
  shows "\<exists>l. job_life j (store_step (now, c) d) = Some l \<and> simulates now (action_on j c) (life_of r) l"
proof -
  note row_ok = select_job_ok [OF ok row] and id = select_jobD [OF row, THEN conjunct2]
  show ?thesis
  proof (cases c)
    case (SqlCreate job)
    with row show ?thesis
      by (auto simp: job_life_def simulates_def create_keeps_row split: sum.splits)
  next
    case (SqlClaim i w ms)
    with claim_simulates [OF row_ok, of now i w ms] row id show ?thesis by (simp add: job_life_def select_claim)
  next
    case (SqlExtend i w ms)
    with extend_simulates [OF row_ok, of now i w ms] row id show ?thesis by (simp add: job_life_def select_extend)
  next
    case (SqlFinish i w st err)
    with finish_simulates [OF row_ok, of st now i w err] row id assms(2) show ?thesis
      by (simp add: job_life_def select_finish)
  next
    case (SqlRelease i w)
    with release_simulates [OF row_ok, of now i w] row id show ?thesis by (simp add: job_life_def select_release)
  next
    case (SqlReclaim ms limit locked)
    with reclaim_simulates [OF ok row, of now ms limit locked] row show ?thesis
      by (simp add: job_life_def select_reclaim)
  qed (use row in \<open>simp_all add: job_life_def simulates_def\<close>)
qed

lemma store_path:
  assumes "store_ok d" and "list_all (\<lambda>(t, c). legal c) cs" and "job_life j d = Some l"
  shows "\<exists>l'. job_life j (fold store_step cs d) = Some l' \<and> life_path j cs l l'"
  using assms
proof (induction cs arbitrary: d l)
  case (Cons tc cs)
  obtain now c where tc: "tc = (now, c)" by fastforce
  from Cons.prems(2) tc have legal: "legal c" "list_all (\<lambda>(t, c). legal c) cs" by simp_all
  obtain r where r: "select_job j d = Some r" "l = life_of r" using Cons.prems(3) by (auto simp: job_life_def)
  obtain l1 where l1: "job_life j (store_step (now, c) d) = Some l1" "simulates now (action_on j c) l l1"
    using store_step_simulates [OF Cons.prems(1) legal(1) r(1)] r(2) by blast
  from Cons.IH [OF store_ok_step [OF Cons.prems(1) legal(1)] legal(2) l1(1)] l1(2)
  show ?case unfolding tc by (auto intro: life_path.move)
qed (auto intro: life_path.stop)

section \<open>What the specification gives\<close>

definition life_attempts :: "life \<Rightarrow> int" where
  "life_attempts l = (case l of Waiting n \<Rightarrow> n | Leased w t n \<Rightarrow> n | Over st n \<Rightarrow> n)"

definition claims_on :: "string \<Rightarrow> (int \<times> store_call) list \<Rightarrow> nat" where
  "claims_on j cs = length (filter (\<lambda>(t, c). \<exists>w ms. c = SqlClaim j w ms) cs)"

lemma simulates_attempts:
  "simulates now (action_on j c) l l' \<Longrightarrow>
   life_attempts l \<le> life_attempts l' \<and> life_attempts l' \<le> life_attempts l + int (claims_on j [(now, c)])"
  by (cases c; cases l) (auto simp: simulates_def life_attempts_def claims_on_def split: if_splits)

lemma life_path_attempts:
  "life_path j cs l l' \<Longrightarrow>
   life_attempts l \<le> life_attempts l' \<and> life_attempts l' \<le> life_attempts l + int (claims_on j cs)"
proof (induction rule: life_path.induct)
  case (move now c l l1 cs l2)
  have "claims_on j ((now, c) # cs) = claims_on j [(now, c)] + claims_on j cs" by (simp add: claims_on_def)
  with simulates_attempts [OF move.hyps(1)] move.IH show ?case by simp
qed simp

text \<open>
  C4: the store implements the life cycle of a job. Every sequence of statements by any number
  of processes takes a job along a path of the specification: it waits, is leased by a claim,
  taken over only after the deadline, renewed, returned or finished by its owner, swept only
  after the grace period, and finished without an owner by a call that names none. A statement
  that the specification allows is performed, except that a sweep may pass a job over; a job
  never disappears, and its attempts grow by at most the claims on it.
\<close>

theorem store_refines_life_cycle:
  assumes "store_ok d" and "list_all (\<lambda>(t, c). legal c) cs" and "job_life j d = Some l"
  shows "\<exists>l'. job_life j (fold store_step cs d) = Some l' \<and> life_path j cs l l' \<and>
    life_attempts l \<le> life_attempts l' \<and> life_attempts l' \<le> life_attempts l + int (claims_on j cs)"
  using store_path [OF assms] life_path_attempts by blast

theorem store_refines_life_cycle_witness:
  "job_life ''j'' (fold store_step [(20000, SqlClaim ''j'' ''v'' 30), (25000, SqlExtend ''j'' ''w'' 30),
     (60000, SqlReclaim 1 10 (\<lambda>_. False))] demo_db) \<in> {Some (Waiting 1), Some (Leased ''w'' 55000 1)}"
proof -
  have "job_life ''j'' demo_db = Some (Leased ''w'' 30010 1)"
    by (simp add: demo_db_eq job_life_def select_job_def demo_row_def life_of_def)
  from store_refines_life_cycle [OF demo_db_ok _ this, of
      "[(20000, SqlClaim ''j'' ''v'' 30), (25000, SqlExtend ''j'' ''w'' 30), (60000, SqlReclaim 1 10 (\<lambda>_. False))]"]
  show ?thesis by (auto simp: life_path_simps simulates_def must_def)
qed

end
