(* ===== verification/Redis_Scripts.thy ===== *)
theory Redis_Scripts
  imports Contracts "HOL-Library.Product_Lexorder"
begin

text \<open>
  The Lua scripts of \<^verbatim>\<open>internal/jobs/queue.go\<close>, each a function on the four Redis keys of one
  queue. A script runs atomically in Redis, so it is one step. The Redis commands a script
  calls are its vocabulary and are written out first, each for the kind of key it is used on.

  A list is given from its left end. A sorted set holds each member once with its score and
  is read in the order of scores, members with equal scores in the order of bytes. Scores are
  deadlines in Unix milliseconds, integers that the double of a score holds exactly up to
  \<open>2 ^ 53\<close>.
\<close>

section \<open>Redis keys and commands\<close>

record redis =
  q_ready :: "string list"
  q_leases :: "(string \<times> int) list"
  q_owners :: "string \<rightharpoonup> string"
  q_notify :: "string list"

definition LPUSH :: "string \<Rightarrow> string list \<Rightarrow> string list" where
  "LPUSH v xs = v # xs"

definition RPOP :: "string list \<Rightarrow> string option \<times> string list" where
  "RPOP xs = (if xs = [] then (None, []) else (Some (last xs), butlast xs))"

text \<open>\<open>LTRIM key 0 stop\<close> keeps the elements up to index \<open>stop\<close>, which is included.\<close>

definition LTRIM :: "int \<Rightarrow> string list \<Rightarrow> string list" where
  "LTRIM stop xs = (if stop < 0 then take (nat (int (length xs) + stop + 1)) xs else take (nat (stop + 1)) xs)"

definition ZADD :: "int \<Rightarrow> string \<Rightarrow> (string \<times> int) list \<Rightarrow> (string \<times> int) list" where
  "ZADD score m z = AList.update m score z"

definition ZREM :: "string \<Rightarrow> (string \<times> int) list \<Rightarrow> (string \<times> int) list" where
  "ZREM m z = AList.delete m z"

definition ZSCORE :: "string \<Rightarrow> (string \<times> int) list \<Rightarrow> int option" where
  "ZSCORE m z = map_of z m"

text \<open>
  \<open>ZRANGEBYSCORE key -inf max LIMIT 0 count\<close>: a negative count takes all.
\<close>

definition by_score :: "(string \<times> int) list \<Rightarrow> (string \<times> int) list" where
  "by_score z = sort_key (\<lambda>(m, score). (score, m)) z"

definition ZRANGEBYSCORE :: "int \<Rightarrow> int \<Rightarrow> (string \<times> int) list \<Rightarrow> string list" where
  "ZRANGEBYSCORE mx cnt z =
     (let ms = map fst (filter (\<lambda>(m, score). score \<le> mx) (by_score z))
      in if cnt < 0 then ms else take (nat cnt) ms)"

section \<open>The scripts\<close>

definition notifyBacklog :: int where
  "notifyBacklog = 255"

definition wake :: "redis \<Rightarrow> redis" where
  "wake q = q\<lparr>q_notify := LTRIM notifyBacklog (LPUSH ''1'' (q_notify q))\<rparr>"

definition claimScript :: "int \<Rightarrow> string \<Rightarrow> redis \<Rightarrow> string option \<times> redis" where
  "claimScript deadline owner q =
     (case RPOP (q_ready q) of
        (None, _) \<Rightarrow> (None, q)
      | (Some j, rest) \<Rightarrow>
          (Some j, q\<lparr>q_ready := rest, q_leases := ZADD deadline j (q_leases q), q_owners := (q_owners q)(j \<mapsto> owner)\<rparr>))"

definition pushScript :: "string \<Rightarrow> redis \<Rightarrow> redis" where
  "pushScript j q = wake (q\<lparr>q_ready := LPUSH j (q_ready q)\<rparr>)"

definition ackScript :: "string \<Rightarrow> redis \<Rightarrow> redis" where
  "ackScript j q = q\<lparr>q_leases := ZREM j (q_leases q), q_owners := (q_owners q)(j := None)\<rparr>"

definition requeueScript :: "string \<Rightarrow> redis \<Rightarrow> redis" where
  "requeueScript j q =
     wake (q\<lparr>q_leases := ZREM j (q_leases q), q_owners := (q_owners q)(j := None), q_ready := LPUSH j (q_ready q)\<rparr>)"

definition extendScript :: "string \<Rightarrow> int \<Rightarrow> string \<Rightarrow> redis \<Rightarrow> int \<times> redis" where
  "extendScript j deadline owner q =
     (if q_owners q j \<noteq> Some owner then (0, q)
      else if ZSCORE j (q_leases q) = None then (0, q)
      else (1, q\<lparr>q_leases := ZADD deadline j (q_leases q)\<rparr>))"

fun reclaim_each :: "string list \<Rightarrow> redis \<Rightarrow> redis" where
  "reclaim_each [] q = q"
| "reclaim_each (j # js) q =
     reclaim_each js (q\<lparr>q_leases := ZREM j (q_leases q), q_owners := (q_owners q)(j := None), q_ready := LPUSH j (q_ready q)\<rparr>)"

definition reclaimScript :: "int \<Rightarrow> int \<Rightarrow> redis \<Rightarrow> string list \<times> redis" where
  "reclaimScript now limit q =
     (let expired = ZRANGEBYSCORE now limit (q_leases q);
          q1 = reclaim_each expired q
      in (expired, if expired \<noteq> [] then wake q1 else q1))"

text \<open>\<open>BRPOP\<close> on the notify list at the moment it returns: a hint, or nothing at the timeout.\<close>

definition brpop :: "redis \<Rightarrow> string option \<times> redis" where
  "brpop q = (let (v, rest) = RPOP (q_notify q) in (v, q\<lparr>q_notify := rest\<rparr>))"

section \<open>The invariant of the keys\<close>

text \<open>
  Members of the sorted set are distinct, exactly the leased jobs have an owner, and the
  list of hints stays within its bound.
\<close>

definition queue_ok :: "redis \<Rightarrow> bool" where
  "queue_ok q \<longleftrightarrow> distinct_keys (q_leases q) \<and> dom (q_owners q) = fst ` set (q_leases q) \<and>
     length (q_notify q) \<le> 256"

definition in_queue :: "redis \<Rightarrow> string set" where
  "in_queue q = set (q_ready q) \<union> fst ` set (q_leases q)"

text \<open>The scripts as one step type, for sequences of calls by any number of processes.\<close>

datatype queue_call =
  CallPush string
| CallClaim int string
| CallAck string
| CallRequeue string
| CallExtend string int string
| CallReclaim int int
| CallWait

fun queue_step :: "queue_call \<Rightarrow> redis \<Rightarrow> redis" where
  "queue_step (CallPush j) q = pushScript j q"
| "queue_step (CallClaim d w) q = snd (claimScript d w q)"
| "queue_step (CallAck j) q = ackScript j q"
| "queue_step (CallRequeue j) q = requeueScript j q"
| "queue_step (CallExtend j d w) q = snd (extendScript j d w q)"
| "queue_step (CallReclaim now limit) q = snd (reclaimScript now limit q)"
| "queue_step CallWait q = snd (brpop q)"

definition empty_queue :: redis where
  "empty_queue = \<lparr>q_ready = [], q_leases = [], q_owners = Map.empty, q_notify = []\<rparr>"

lemma wake_simps [simp]:
  "q_ready (wake q) = q_ready q" "q_leases (wake q) = q_leases q" "q_owners (wake q) = q_owners q"
  by (simp_all add: wake_def)

lemma wake_bound: "length (q_notify (wake q)) \<le> 256"
  by (simp add: wake_def LTRIM_def notifyBacklog_def)

lemma reclaim_each_eq:
  "reclaim_each js q = q\<lparr>q_leases := fold AList.delete js (q_leases q),
     q_owners := (\<lambda>j. if j \<in> set js then None else q_owners q j), q_ready := rev js @ q_ready q\<rparr>"
  by (induction js arbitrary: q) (auto simp: ZREM_def LPUSH_def fun_eq_iff)

lemma fold_delete: "fold AList.delete js z = filter (\<lambda>(m, _). m \<notin> set js) z"
proof (induction js arbitrary: z)
  case (Cons j js)
  then show ?case by (auto simp: AList.delete_eq intro: filter_cong)
qed auto

lemma by_score_perm [simp]: "set (by_score z) = set z" "mset (by_score z) = mset z" "length (by_score z) = length z"
  by (simp_all add: by_score_def)

lemma ZRANGEBYSCORE_member:
  "m \<in> set (ZRANGEBYSCORE now limit z) \<Longrightarrow> \<exists>score. (m, score) \<in> set z \<and> score \<le> now"
  by (fastforce simp: ZRANGEBYSCORE_def Let_def dest!: in_set_takeD split: if_splits)

lemma by_score_keys: "distinct_keys z \<Longrightarrow> distinct_keys (by_score z)"
  by (metis by_score_perm(2) mset_eq_imp_distinct_iff mset_map)

lemma ZRANGEBYSCORE_distinct: "distinct_keys z \<Longrightarrow> distinct (ZRANGEBYSCORE now limit z)"
  using by_score_keys [of z] by (auto simp: ZRANGEBYSCORE_def Let_def distinct_map_filter distinct_take)

lemma reclaimScript_eq:
  "reclaimScript now limit q = (let js = ZRANGEBYSCORE now limit (q_leases q) in
     (js, q\<lparr>q_leases := filter (\<lambda>(m, _). m \<notin> set js) (q_leases q),
            q_owners := (\<lambda>j. if j \<in> set js then None else q_owners q j),
            q_ready := rev js @ q_ready q,
            q_notify := (if js = [] then q_notify q else q_notify (wake q))\<rparr>))"
  by (auto simp: reclaimScript_def reclaim_each_eq fold_delete Let_def wake_def intro!: filter_cong)

section \<open>Who holds a lease\<close>

definition lease_of :: "redis \<Rightarrow> string \<Rightarrow> (string \<times> int) option" where
  "lease_of q j = (case (q_owners q j, ZSCORE j (q_leases q)) of (Some w, Some d) \<Rightarrow> Some (w, d) | _ \<Rightarrow> None)"

definition extend_lease :: "string \<Rightarrow> string \<Rightarrow> int \<Rightarrow> redis \<Rightarrow> bool \<times> redis" where
  "extend_lease j w d q = (case extendScript j d w q of (n, q') \<Rightarrow> (n = 1, q'))"

definition sweep_leases :: "int \<Rightarrow> int \<Rightarrow> redis \<Rightarrow> redis" where
  "sweep_leases limit now q = snd (reclaimScript now limit q)"

lemma lease_of_Some: "lease_of q j = Some (w, d) \<longleftrightarrow> q_owners q j = Some w \<and> map_of (q_leases q) j = Some d"
  by (auto simp: lease_of_def ZSCORE_def split: option.splits)

lemma map_of_filter_keys:
  "map_of (filter (\<lambda>(m, _). m \<notin> A) z) j = (if j \<in> A then None else map_of z j)"
  by (induction z) auto

lemma lease_of_sweep:
  "lease_of (sweep_leases limit now q) j =
     (if j \<in> set (ZRANGEBYSCORE now limit (q_leases q)) then None else lease_of q j)"
  by (simp add: sweep_leases_def reclaimScript_eq Let_def lease_of_def ZSCORE_def map_of_filter_keys)

lemma queue_ok_scripts:
  assumes "queue_ok q"
  shows "queue_ok (queue_step c q)"
proof -
  have keys: "fst ` set (q_leases q) = dom (map_of (q_leases q))" by (rule dom_map_of_conv_image_fst [symmetric])
  have upd: "fst ` set (AList.update j d (q_leases q)) = insert j (dom (map_of (q_leases q)))" for j d
    using dom_map_of_conv_image_fst [of "AList.update j d (q_leases q)"] by simp
  have del: "fst ` set (AList.delete j (q_leases q)) = dom (map_of (q_leases q)) - {j}" for j
    using keys_delete [of j "q_leases q"] keys by simp
  have filt: "fst ` set (filter (\<lambda>(m, _). m \<notin> A) (q_leases q)) = dom (map_of (q_leases q)) - A" for A
    unfolding dom_map_of_conv_image_fst by (auto simp: image_iff)
  have short: "length (take n (q_notify q)) \<le> 256" "length (butlast (q_notify q)) \<le> 256" for n
    using assms by (auto simp: queue_ok_def)
  note defs = queue_ok_def pushScript_def claimScript_def RPOP_def ackScript_def requeueScript_def
    extendScript_def brpop_def ZADD_def ZREM_def ZSCORE_def Let_def
  show ?thesis
  proof (cases c)
    case (CallClaim d w)
    show ?thesis
      using assms upd keys by (cases "q_ready q = []") (simp_all add: CallClaim defs)
  next
    case (CallAck j)
    show ?thesis using assms del [of j] keys by (auto simp: CallAck defs)
  next
    case (CallRequeue j)
    show ?thesis using assms del [of j] keys wake_bound by (auto simp: CallRequeue defs)
  next
    case (CallExtend j d w)
    show ?thesis
    proof (cases "q_owners q j = Some w \<and> map_of (q_leases q) j \<noteq> None")
      case True
      then have "insert j (dom (map_of (q_leases q))) = dom (map_of (q_leases q))" by auto
      with assms upd [of j d] keys True show ?thesis by (auto simp: CallExtend defs)
    qed (use assms in \<open>auto simp: CallExtend defs\<close>)
  next
    case (CallReclaim now limit)
    let ?A = "set (ZRANGEBYSCORE now limit (q_leases q))"
    have "dom (\<lambda>j. if j \<in> ?A then None else q_owners q j) = dom (q_owners q) - ?A" by (auto split: if_splits)
    then show ?thesis
      using assms filt [of ?A] keys wake_bound
      by (simp add: CallReclaim queue_ok_def reclaimScript_eq Let_def distinct_map_filter)
  qed (use assms wake_bound short in \<open>auto simp: defs split: option.splits\<close>)
qed

lemma extend_lease_eq:
  "extend_lease j w d q =
     (if \<exists>d0. lease_of q j = Some (w, d0) then (True, q\<lparr>q_leases := ZADD d j (q_leases q)\<rparr>) else (False, q))"
  by (auto simp: extend_lease_def extendScript_def lease_of_Some ZSCORE_def)

interpretation lq: fifo "\<lambda>q. rev (q_ready q)" pushScript "claimScript d w" for d w
  by unfold_locales
    (auto simp: pushScript_def LPUSH_def claimScript_def RPOP_def rev_eq_Cons_iff split: option.splits)

interpretation ql: leases queue_ok lease_of extend_lease "sweep_leases limit" for limit
proof unfold_locales
  fix q j w d assume ok: "queue_ok q"
  show "queue_ok (snd (extend_lease j w d q))"
    using queue_ok_scripts [OF ok, of "CallExtend j d w"] by (simp add: extend_lease_def split_beta)
  show "fst (extend_lease j w d q) \<longleftrightarrow> (\<exists>d0. lease_of q j = Some (w, d0))"
    by (simp add: extend_lease_eq)
  show "lease_of (snd (extend_lease j w d q)) i =
      (if i = j \<and> fst (extend_lease j w d q) then Some (w, d) else lease_of q i)" for i
    by (cases "i = j") (auto simp: extend_lease_eq lease_of_def ZSCORE_def ZADD_def split: option.splits)
next
  fix q t assume ok: "queue_ok q"
  show "queue_ok (sweep_leases limit t q)"
    using queue_ok_scripts [OF ok, of "CallReclaim t limit"] by (simp add: sweep_leases_def)
  show "lease_of (sweep_leases limit t q) j = Some (w, d)" if "lease_of q j = Some (w, d)" "t < d" for j w d
  proof -
    have "j \<notin> set (ZRANGEBYSCORE t limit (q_leases q))"
      using that ok by (auto dest!: ZRANGEBYSCORE_member simp: lease_of_Some queue_ok_def map_of_eq_Some_iff
          dest: eq_key_imp_eq_value)
    with that show ?thesis by (simp add: lease_of_sweep)
  qed
  show "lease_of q j = Some h" if "lease_of (sweep_leases limit t q) j = Some h" for j h
    using that by (simp add: lease_of_sweep split: if_splits)
qed

end
