(* ===== verification/Store_Records.thy ===== *)
theory Store_Records
  imports Store_Properties
begin

text \<open>
  What the store keeps: the round trip of a job through \<open>Create\<close> and \<open>Get\<close>, the fence on
  steps, the sweep of expired jobs, and the event log a reader can resume.
\<close>

section \<open>Create and Get\<close>

definition step_row_of :: "string \<Rightarrow> int \<Rightarrow> job_step \<Rightarrow> step_result \<Rightarrow> step_row" where
  "step_row_of j i s r = \<lparr>s_job_id = j, s_id = js_ID s, s_ordinal = i, s_agent = js_Agent s,
     s_prompt = js_Prompt s, s_depends_on = js_DependsOn s, s_status = result_Status r,
     s_attempts = result_Attempts r, s_output = result_Output r, s_error = result_Error r,
     s_owner = None, s_started_at = None, s_finished_at = None\<rparr>"

lemma step_row_of_simps [simp]:
  "s_job_id (step_row_of j i s r) = j" "s_id (step_row_of j i s r) = js_ID s"
  "s_ordinal (step_row_of j i s r) = i" "s_agent (step_row_of j i s r) = js_Agent s"
  "s_prompt (step_row_of j i s r) = js_Prompt s" "s_depends_on (step_row_of j i s r) = js_DependsOn s"
  "s_status (step_row_of j i s r) = result_Status r" "s_attempts (step_row_of j i s r) = result_Attempts r"
  "s_output (step_row_of j i s r) = result_Output r" "s_error (step_row_of j i s r) = result_Error r"
  by (simp_all add: step_row_of_def)

fun step_rows :: "string \<Rightarrow> int \<Rightarrow> job_step list \<Rightarrow> step_result list \<Rightarrow> step_row list" where
  "step_rows j i (s # ss) (r # rs) = step_row_of j i s r # step_rows j (i + 1) ss rs"
| "step_rows j i _ _ = []"

lemma step_rows_keys:
  "row \<in> set (step_rows j i ss rs) \<Longrightarrow> s_job_id row = j \<and> s_id row \<in> js_ID ` set ss \<and> i \<le> s_ordinal row"
  by (induction j i ss rs rule: step_rows.induct) auto

lemma step_rows_sorted: "sorted (map s_ordinal (step_rows j i ss rs))"
proof (induction j i ss rs rule: step_rows.induct)
  case (1 j i s ss r rs)
  then show ?case by (fastforce dest: step_rows_keys)
qed simp_all

lemma insert_steps_rows:
  "length ss = length rs \<Longrightarrow> distinct (map js_ID ss) \<Longrightarrow>
   (\<And>row s. row \<in> set (db_steps d) \<Longrightarrow> s \<in> set ss \<Longrightarrow> s_job_id row = j \<Longrightarrow> s_id row \<noteq> js_ID s) \<Longrightarrow>
   insert_steps j i ss rs d = Inr (d\<lparr>db_steps := db_steps d @ step_rows j i ss rs\<rparr>)"
proof (induction j i ss rs d rule: insert_steps.induct)
  case (3 j i s ss r rs d)
  let ?d = "d\<lparr>db_steps := db_steps d @ [step_row_of j i s r]\<rparr>"
  have ins: "insert_step j i s r d = Inr ?d"
    using "3.prems"(3) by (auto simp: insert_step_def step_row_of_def list_ex_iff)
  have "insert_steps j (i + 1) ss rs ?d = Inr (?d\<lparr>db_steps := db_steps ?d @ step_rows j (i + 1) ss rs\<rparr>)"
  proof (rule "3.IH" [OF ins])
    fix row s' assume "row \<in> set (db_steps ?d)" and s': "s' \<in> set ss" and j: "s_job_id row = j"
    then consider "row \<in> set (db_steps d)" | "row = step_row_of j i s r" by auto
    then show "s_id row \<noteq> js_ID s'"
    proof cases
      case 1
      with "3.prems"(3) s' j show ?thesis by auto
    next
      case 2
      with "3.prems"(2) s' show ?thesis by auto
    qed
  qed (use "3.prems" in auto)
  with ins show ?case by simp
qed auto

text \<open>The loaded steps and results of freshly inserted rows.\<close>

lemma load_steps:
  "length ss = length rs \<Longrightarrow> map (\<lambda>s. \<lparr>js_ID = s_id s, js_Agent = s_agent s, js_Prompt = s_prompt s,
      js_DependsOn = s_depends_on s\<rparr>) (step_rows j i ss rs) = ss"
  by (induction j i ss rs rule: step_rows.induct) simp_all

lemma load_results:
  "map result_ID rs = map js_ID ss \<Longrightarrow> map (\<lambda>s. \<lparr>result_ID = s_id s, result_Status = s_status s,
      result_Attempts = s_attempts s, result_Output = s_output s, result_Error = s_error s\<rparr>)
      (step_rows j i ss rs) = rs"
  by (induction j i ss rs rule: step_rows.induct) auto

lemma create_job_loads:
  assumes "store_ok d" and fresh: "select_job (job_ID job) d = None"
    and job: "job_Attempts job = 0" "job_Owner job = []" "job_Error job = []"
      "job_StartedAt job = None" "job_FinishedAt job = None" "job_LeaseExpiresAt job = None"
    and steps: "distinct (map js_ID (job_Steps job))" "map result_ID (job_Results job) = map js_ID (job_Steps job)"
  shows "\<exists>d' r. create_job job d = Inr d' \<and> select_job (job_ID job) d' = Some r \<and>
    load_job (job_ID job) r (select_steps (job_ID job) d') =
      job\<lparr>job_CreatedAt := job_CreatedAt job div 1000 * 1000\<rparr>"
proof -
  let ?j = "job_ID job" and ?t = "job_CreatedAt job div 1000"
  let ?r = "\<lparr>j_id = ?j, j_status = job_Status job, j_created_at = ?t, j_started_at = None, j_finished_at = None,
    j_attempts = 0, j_owner = None, j_lease_expires_at = None, j_error = [], j_updated_at = ?t\<rparr>"
  let ?d1 = "d\<lparr>db_jobs := db_jobs d @ [?r]\<rparr>"
  let ?rows = "step_rows ?j 0 (job_Steps job) (job_Results job)"
  have none: "s_job_id row \<noteq> ?j" if "row \<in> set (db_steps d)" for row
  proof -
    have "s_job_id row \<in> j_id ` set (db_jobs d)" using that assms(1) by (simp add: store_ok_def steps_ok_def)
    with fresh show ?thesis by (metis select_job_None)
  qed
  have len: "length (job_Steps job) = length (job_Results job)" using steps(2) by (metis length_map)
  have ins: "insert_job job d = Inr ?d1"
    using fresh by (auto simp: insert_job_def list_ex_iff select_job_def find_None_iff Let_def)
  have rows: "insert_steps ?j 0 (job_Steps job) (job_Results job) ?d1 = Inr (?d1\<lparr>db_steps := db_steps ?d1 @ ?rows\<rparr>)"
    by (rule insert_steps_rows [OF len steps(1)]) (use none in auto)
  let ?d = "?d1\<lparr>db_steps := db_steps d @ ?rows\<rparr>"
  have "create_job job d = Inr ?d" using ins rows by (simp add: create_job_def)
  moreover have "select_job ?j ?d = Some ?r"
    using fresh by (simp add: select_job_def find_append)
  moreover have "select_steps ?j ?d = ?rows"
  proof -
    have "filter (\<lambda>row. s_job_id row = ?j) (db_steps d) = []" using none by (simp add: filter_empty_conv)
    moreover have "filter (\<lambda>row. s_job_id row = ?j) ?rows = ?rows"
      by (rule filter_True) (auto dest: step_rows_keys)
    ultimately show ?thesis
      using step_rows_sorted by (simp add: select_steps_def sort_key_id_if_sorted)
  qed
  moreover have "load_job ?j ?r ?rows = job\<lparr>job_CreatedAt := ?t * 1000\<rparr>"
    using job load_steps [OF len] load_results [OF steps(2)] by (simp add: load_job_def)
  ultimately show ?thesis by metis
qed

lemma create_frame:
  "create_job job d = Inr d' \<Longrightarrow> db_events d' = db_events d \<and> next_event d' = next_event d \<and> db_workers d' = db_workers d"
  using insert_steps_frame [of "job_ID job" 0 "job_Steps job" "job_Results job" _ d' "{}"]
  by (auto simp: create_job_def insert_job_def Let_def split: sum.splits if_splits)

lemma create_roundtrip:
  assumes "store_ok d" and "select_job (job_ID job) d = None"
    and "job_Attempts job = 0" "job_Owner job = []" "job_Error job = []"
      "job_StartedAt job = None" "job_FinishedAt job = None" "job_LeaseExpiresAt job = None"
    and "distinct (map js_ID (job_Steps job))" "map result_ID (job_Results job) = map js_ID (job_Steps job)"
    and "create_job job d = Inr d'"
  shows "\<exists>r. select_job (job_ID job) d' = Some r \<and>
    load_job (job_ID job) r (select_steps (job_ID job) d') = job\<lparr>job_CreatedAt := job_CreatedAt job div 1000 * 1000\<rparr>"
  using create_job_loads [OF assms(1-10)] assms(11) by auto

text \<open>
  C31: a job survives the store. When a new pending job is created, \<open>Get\<close> returns the same
  job: its steps with their agents, prompts and dependencies in the order of the submission,
  and its results, with the time of creation cut to microseconds.
\<close>

theorem create_get_roundtrip:
  assumes "store_ok d" and fresh: "select_job (job_ID job) d = None"
    and job: "job_Attempts job = 0" "job_Owner job = []" "job_Error job = []"
      "job_StartedAt job = None" "job_FinishedAt job = None" "job_LeaseExpiresAt job = None"
    and steps: "distinct (map js_ID (job_Steps job))" "map result_ID (job_Results job) = map js_ID (job_Steps job)"
  shows "\<exists>d' r. create_job job d = Inr d' \<and> select_job (job_ID job) d' = Some r \<and>
    load_job (job_ID job) r (select_steps (job_ID job) d') =
      job\<lparr>job_CreatedAt := job_CreatedAt job div 1000 * 1000\<rparr>"
  by (rule create_job_loads [OF assms])

theorem create_get_roundtrip_witness:
  "\<exists>d' r. create_job demo_job empty_db = Inr d' \<and> select_job ''j'' d' = Some r \<and>
    load_job ''j'' r (select_steps ''j'' d') = demo_job\<lparr>job_CreatedAt := 5000\<rparr>"
proof -
  have "store_ok empty_db" by (simp add: store_ok_def empty_db_def jobs_ok_def steps_ok_def events_ok_def)
  moreover have "select_job (job_ID demo_job) empty_db = None" by (simp add: empty_db_def select_job_def)
  ultimately show ?thesis using create_get_roundtrip [of empty_db demo_job] by (simp add: demo_job_def)
qed

section \<open>The fence on steps\<close>

text \<open>An update of at most one row of a table with unique keys.\<close>

lemma update_by_key:
  assumes "distinct (map key rows)" and only: "\<And>q. P q \<Longrightarrow> key q = k"
    and n: "n = int (length (filter P rows))"
  shows "(n = 1 \<longleftrightarrow> (\<exists>q\<in>set rows. P q)) \<and> (n = 1 \<or> map (\<lambda>q. if P q then f q else q) rows = rows) \<and>
    list_all2 (\<lambda>q q'. q' = (if n = 1 \<and> key q = k then f q else q)) rows (map (\<lambda>q. if P q then f q else q) rows)"
proof -
  have one: "n = (if \<exists>q\<in>set rows. P q then 1 else 0)"
    using length_filter_unique [OF assms(1) only] by (simp add: n)
  have picked: "P q \<longleftrightarrow> n = 1 \<and> key q = k" if "q \<in> set rows" for q
  proof
    assume "n = 1 \<and> key q = k"
    then obtain q' where "q' \<in> set rows" "P q'" using one by (auto split: if_splits)
    with only unique_key [OF assms(1) _ that] \<open>n = 1 \<and> key q = k\<close> show "P q" by metis
  qed (use one only that in auto)
  have "n = 1 \<or> map (\<lambda>q. if P q then f q else q) rows = rows"
  proof (cases "n = 1")
    case False
    then have "\<not> P q" if "q \<in> set rows" for q using picked [OF that] by blast
    then show ?thesis by (intro disjI2 map_idI) simp
  qed simp
  moreover have "list_all2 (\<lambda>q q'. q' = (if n = 1 \<and> key q = k then f q else q)) rows
      (map (\<lambda>q. if P q then f q else q) rows)"
    unfolding list_all2_map2 by (rule list.rel_refl_strong) (simp only: picked)
  moreover have "n = 1 \<longleftrightarrow> (\<exists>q\<in>set rows. P q)" unfolding one by simp
  ultimately show ?thesis by blast
qed

text \<open>
  C14: a step is claimed only by the owner of its job and never after it succeeded.
  \<open>ClaimStep\<close> answers true exactly when the worker owns the job and the step exists and has
  not succeeded; a true answer marks that step running under the worker, and every other
  step keeps its row.
\<close>

theorem claim_step_spec:
  assumes "store_ok d" and claim: "claim_step j s w now d = (n, d')"
  shows "(n = 1 \<longleftrightarrow> (\<exists>r. select_job j d = Some r \<and> j_owner r = Some w) \<and>
      (\<exists>q\<in>set (db_steps d). s_job_id q = j \<and> s_id q = s \<and> s_status q \<noteq> Succeeded)) \<and>
    (n = 1 \<or> d' = d) \<and> db_jobs d' = db_jobs d \<and>
    list_all2 (\<lambda>q q'. q' = (if n = 1 \<and> s_job_id q = j \<and> s_id q = s
        then q\<lparr>s_status := Running, s_owner := Some w, s_started_at := Some now\<rparr> else q))
      (db_steps d) (db_steps d')"
proof -
  let ?own = "\<exists>r. select_job j d = Some r \<and> j_owner r = Some w"
  define P where "P q \<longleftrightarrow> s_job_id q = j \<and> s_id q = s \<and>
    list_ex (\<lambda>r. j_id r = s_job_id q \<and> j_owner r = Some w) (db_jobs d) \<and> s_status q \<noteq> Succeeded" for q :: step_row
  define f where "f q = q\<lparr>s_status := Running, s_owner := Some w, s_started_at := Some now\<rparr>" for q :: step_row
  have P: "P q \<longleftrightarrow> s_job_id q = j \<and> s_id q = s \<and> ?own \<and> s_status q \<noteq> Succeeded" for q
    using list_ex_owner [OF assms(1), of j "\<lambda>r. j_owner r = Some w"] by (auto simp: P_def)
  have n: "n = int (length (filter P (db_steps d)))"
    and d': "d' = d\<lparr>db_steps := map (\<lambda>q. if P q then f q else q) (db_steps d)\<rparr>"
    using claim unfolding P_def [abs_def] f_def [abs_def]
    by (auto simp: claim_step_def split_beta sql_update_count)
  have keys: "distinct (map (\<lambda>r. (s_job_id r, s_id r)) (db_steps d))"
    using assms(1) by (simp add: store_ok_def steps_ok_def)
  have upd: "(n = 1 \<longleftrightarrow> (\<exists>q\<in>set (db_steps d). P q)) \<and>
    (n = 1 \<or> map (\<lambda>q. if P q then f q else q) (db_steps d) = db_steps d) \<and>
    list_all2 (\<lambda>q q'. q' = (if n = 1 \<and> (s_job_id q, s_id q) = (j, s) then f q else q))
      (db_steps d) (map (\<lambda>q. if P q then f q else q) (db_steps d))"
    by (rule update_by_key [OF keys _ n]) (simp add: P_def)
  then have "n = 1 \<or> d' = d" by (auto simp: d')
  moreover have "n = 1 \<longleftrightarrow> ?own \<and> (\<exists>q\<in>set (db_steps d). s_job_id q = j \<and> s_id q = s \<and> s_status q \<noteq> Succeeded)"
    using upd unfolding P by blast
  moreover have "list_all2 (\<lambda>q q'. q' = (if n = 1 \<and> s_job_id q = j \<and> s_id q = s then f q else q))
      (db_steps d) (db_steps d')"
    using upd [THEN conjunct2, THEN conjunct2] by (simp add: d')
  moreover have "db_jobs d' = db_jobs d" by (simp add: d')
  ultimately show ?thesis unfolding f_def by blast
qed

theorem claim_step_spec_witness:
  "fst (claim_step ''j'' ''s'' ''w'' 20 demo_db) = 1 \<and> fst (claim_step ''j'' ''s'' ''v'' 20 demo_db) \<noteq> 1"
proof -
  have row: "select_job ''j'' demo_db = Some demo_row" by (simp add: demo_db_eq select_job_def demo_row_def)
  have "fst (claim_step ''j'' ''s'' ''w'' 20 demo_db) = 1"
    using claim_step_spec [OF demo_db_ok surjective_pairing, of "''j''" "''s''" "''w''" 20] row
    by (simp add: demo_row_def demo_db_eq demo_step_row_def)
  moreover have "fst (claim_step ''j'' ''s'' ''v'' 20 demo_db) \<noteq> 1"
    using claim_step_spec [OF demo_db_ok surjective_pairing, of "''j''" "''s''" "''v''" 20] row
    by (simp add: demo_row_def)
  ultimately show ?thesis by blast
qed

section \<open>Sweeps\<close>

lemma sort_prefix_le:
  assumes "r \<in> set (take n (sort_key f xs))" and "x \<in> set xs" and "x \<notin> set (take n (sort_key f xs))"
  shows "f r \<le> f x"
proof -
  let ?s = "sort_key f xs"
  have "sorted (map f (take n ?s @ drop n ?s))" by (simp del: take_map drop_map)
  moreover have "x \<in> set (drop n ?s)"
    using assms(2,3) by (metis Un_iff append_take_drop_id set_append set_sort)
  ultimately show ?thesis using assms(1) unfolding map_append sorted_append by auto
qed

definition due_rows :: "int \<Rightarrow> (string \<Rightarrow> bool) \<Rightarrow> int \<Rightarrow> db \<Rightarrow> job_row list" where
  "due_rows ms locked now d = filter (\<lambda>r. expired ms now r \<and> \<not> locked (j_id r)) (db_jobs d)"

lemma expired_ids_due: "expired_ids ms limit locked now d = map j_id (take (nat limit) (sort_key deadline_of (due_rows ms locked now d)))"
  by (simp add: expired_ids_def due_rows_def)

text \<open>What a sweep returns: the jobs it picked, each once.\<close>

lemma reclaimed_ids:
  assumes "store_ok d" and sweep: "reclaim_jobs ms limit locked now d = (ids, d')"
  shows "distinct ids \<and> set ids = set (expired_ids ms limit locked now d) \<and>
    length ids = length (expired_ids ms limit locked now d)"
proof -
  let ?ids = "expired_ids ms limit locked now d" and ?due = "due_rows ms locked now d"
  have keys: "distinct (map j_id (db_jobs d))" using assms(1) by (simp add: store_ok_def jobs_ok_def)
  have "mset (map j_id (sort_key deadline_of ?due)) = mset (map j_id ?due)" by (simp only: mset_map mset_sort)
  moreover have "distinct (map j_id ?due)" using keys by (simp add: due_rows_def distinct_map_filter)
  ultimately have "distinct (map j_id (sort_key deadline_of ?due))" using mset_eq_imp_distinct_iff by blast
  then have picked: "distinct ?ids" unfolding expired_ids_due by (metis distinct_take take_map)
  have ids: "ids = map j_id (filter (\<lambda>r. j_id r \<in> set ?ids) (db_jobs d))"
    using sweep by (simp add: reclaim_jobs_def Let_def)
  have "i \<in> j_id ` set (db_jobs d)" if "i \<in> set ?ids" for i using expired_idsD [OF that] by blast
  then have "set ids = set ?ids" unfolding ids by auto
  moreover have "distinct ids" unfolding ids using keys by (simp add: distinct_map_filter)
  ultimately show ?thesis using distinct_card [of ids] distinct_card [OF picked] by simp
qed

text \<open>A due job that is not picked: the limit is reached, and every picked job expired before it.\<close>

lemma left_behind:
  assumes "store_ok d" and r: "r \<in> set (due_rows ms locked now d)" "j_id r \<notin> set (expired_ids ms limit locked now d)"
  shows "length (expired_ids ms limit locked now d) = nat limit"
    and "j \<in> set (expired_ids ms limit locked now d) \<Longrightarrow>
      \<exists>q. select_job j d = Some q \<and> deadline_of q \<le> deadline_of r"
proof -
  let ?due = "due_rows ms locked now d"
  have out: "r \<notin> set (take (nat limit) (sort_key deadline_of ?due))" using r(2) by (auto simp: expired_ids_due)
  then have "\<not> length (sort_key deadline_of ?due) \<le> nat limit" using r(1) by auto
  then show "length (expired_ids ms limit locked now d) = nat limit" by (simp add: expired_ids_due)
  assume "j \<in> set (expired_ids ms limit locked now d)"
  then obtain q where q: "q \<in> set (take (nat limit) (sort_key deadline_of ?due))" "j_id q = j"
    by (auto simp: expired_ids_due)
  then have "q \<in> set (db_jobs d)" by (auto simp: due_rows_def dest!: in_set_takeD)
  then have "select_job j d = Some q" using assms(1) select_job_unique q(2) by (auto simp: store_ok_def)
  with sort_prefix_le [OF q(1) r(1) out]
  show "\<exists>q. select_job j d = Some q \<and> deadline_of q \<le> deadline_of r" by blast
qed

text \<open>
  C30: a sweep of the store returns exactly expired jobs, those that expired first, up to its
  limit. Every returned job was running with a deadline at least the grace period in the past
  and not locked, and is pending without an owner afterwards; no other job changes; an expired
  job is left only when the limit is reached, and no returned job expired after it.
\<close>

theorem reclaim_jobs_exact:
  assumes "store_ok d" and sweep: "reclaim_jobs ms limit locked now d = (ids, d')"
    and jobs: "\<And>j. row j = select_job j d" "\<And>j. row' j = select_job j d'"
  shows "distinct ids \<and> int (length ids) \<le> max 0 limit \<and>
    (\<forall>j\<in>set ids. \<exists>r t. row j = Some r \<and> j_status r = Running \<and> \<not> locked j \<and>
       j_lease_expires_at r = Some t \<and> t + ms * 1000 \<le> now \<and>
       row' j = Some (r\<lparr>j_status := Pending, j_owner := None, j_lease_expires_at := None, j_updated_at := now\<rparr>)) \<and>
    (\<forall>i. i \<notin> set ids \<longrightarrow> row' i = row i) \<and>
    (\<forall>i r t. row i = Some r \<and> j_status r = Running \<and> \<not> locked i \<and> j_lease_expires_at r = Some t \<and>
       t + ms * 1000 \<le> now \<and> i \<notin> set ids \<longrightarrow>
       int (length ids) = max 0 limit \<and>
       (\<forall>j\<in>set ids. \<exists>r' t'. row j = Some r' \<and> j_lease_expires_at r' = Some t' \<and> t' \<le> t))"
proof -
  note ids = reclaimed_ids [OF assms(1) sweep]
  have d': "d' = snd (reclaim_jobs ms limit locked now d)" using sweep by simp
  have length: "int (length ids) \<le> max 0 limit" using ids by (simp add: expired_ids_due)
  have frame: "row' i = row i" if "i \<notin> set ids" for i
    using that ids select_jobD [of i d] by (cases "select_job i d") (auto simp: jobs d' select_reclaim)
  have due: "\<exists>r t. row j = Some r \<and> j_status r = Running \<and> \<not> locked j \<and> j_lease_expires_at r = Some t \<and>
      t + ms * 1000 \<le> now \<and> row' j = Some (release_row now r)" if "j \<in> set ids" for j
  proof -
    from that obtain r where r: "r \<in> set (db_jobs d)" "j_id r = j" "expired ms now r" "\<not> locked j"
      using expired_idsD ids by metis
    then have pick: "select_job j d = Some r" using assms(1) select_job_unique by (auto simp: store_ok_def)
    then have "row' j = Some (release_row now r)" using r(2) that ids by (simp add: jobs d' select_reclaim)
    with r pick show ?thesis by (auto simp: jobs expired_def interval_ms_def split: option.splits)
  qed
  have left: "int (length ids) = max 0 limit \<and>
      (\<forall>j\<in>set ids. \<exists>r' t'. row j = Some r' \<and> j_lease_expires_at r' = Some t' \<and> t' \<le> t)"
    if i: "row i = Some r" "j_status r = Running" "\<not> locked i" "j_lease_expires_at r = Some t"
      "t + ms * 1000 \<le> now" "i \<notin> set ids" for i r t
  proof -
    have "r \<in> set (db_jobs d)" "j_id r = i" using i(1) select_jobD by (auto simp: jobs)
    then have r: "r \<in> set (due_rows ms locked now d)" "j_id r \<notin> set (expired_ids ms limit locked now d)"
      using i ids by (simp_all add: due_rows_def expired_def interval_ms_def)
    have "\<exists>r' t'. row j = Some r' \<and> j_lease_expires_at r' = Some t' \<and> t' \<le> t" if "j \<in> set ids" for j
      using due [OF that] left_behind(2) [OF assms(1) r, of j] that ids i(4) by (auto simp: jobs deadline_of_def)
    with left_behind(1) [OF assms(1) r] ids show ?thesis by auto
  qed
  from ids length frame due left show ?thesis unfolding release_row_def by blast
qed

theorem reclaim_jobs_exact_witness:
  "\<exists>ids d'. reclaim_jobs 30 10 (\<lambda>_. False) 70000 demo_db = (ids, d') \<and> ''j'' \<in> set ids"
proof -
  obtain ids d' where sweep: "reclaim_jobs 30 10 (\<lambda>_. False) 70000 demo_db = (ids, d')" by fastforce
  have row: "select_job ''j'' demo_db = Some demo_row" by (simp add: demo_db_eq select_job_def demo_row_def)
  note exact = reclaim_jobs_exact [OF demo_db_ok sweep refl refl]
  have only: "i = ''j''" if "select_job i demo_db = Some r" for i r
    using that by (auto simp: demo_db_eq select_job_def demo_row_def split: if_splits)
  have "''j'' \<in> set ids"
  proof (rule ccontr)
    assume j: "''j'' \<notin> set ids"
    with exact only have "ids = []" by (metis list.set_intros(1) neq_Nil_conv)
    moreover have "int (length ids) = max 0 10"
      using exact [THEN conjunct2, THEN conjunct2, THEN conjunct2, THEN conjunct2, rule_format,
          of "''j''" demo_row 30010] row j by (simp add: demo_row_def)
    ultimately show False by simp
  qed
  with sweep show ?thesis by blast
qed

section \<open>The event log\<close>

lemma event_step:
  "\<exists>new. db_events (store_step c d) = db_events d @ new \<and> sorted_wrt (\<lambda>a b. e_id a < e_id b) new \<and>
     next_event d \<le> next_event (store_step c d) \<and>
     (\<forall>e\<in>set new. next_event d \<le> e_id e \<and> e_id e < next_event (store_step c d))"
proof -
  have same: "?thesis" if "db_events (store_step c d) = db_events d" "next_event (store_step c d) = next_event d"
    using that by (intro exI [of _ "[]"]) simp
  obtain now call where c: "c = (now, call)" by fastforce
  show ?thesis
  proof (cases call)
    case (SqlCreate job)
    from create_frame show ?thesis by (intro same) (auto simp: c SqlCreate split: sum.splits)
  next
    case (SqlAppend j ty data)
    then show ?thesis by (auto simp: c append_event_def Let_def)
  qed (intro same; simp add: c; simp add: claim_job_def extend_job_def finish_job_def release_job_def
      reclaim_jobs_def claim_step_def update_step_def register_worker_def heartbeat_worker_def
      unregister_worker_def prune_workers_def split_beta Let_def)+
qed

lemma event_steps:
  "\<exists>new. db_events (fold store_step cs d) = db_events d @ new \<and> sorted_wrt (\<lambda>a b. e_id a < e_id b) new \<and>
     next_event d \<le> next_event (fold store_step cs d) \<and>
     (\<forall>e\<in>set new. next_event d \<le> e_id e \<and> e_id e < next_event (fold store_step cs d))"
proof (induction cs arbitrary: d)
  case (Cons c cs)
  obtain new1 where 1: "db_events (store_step c d) = db_events d @ new1" "sorted_wrt (\<lambda>a b. e_id a < e_id b) new1"
    "next_event d \<le> next_event (store_step c d)"
    "\<forall>e\<in>set new1. next_event d \<le> e_id e \<and> e_id e < next_event (store_step c d)"
    using event_step [of c d] by blast
  obtain new2 where 2: "db_events (fold store_step cs (store_step c d)) = db_events (store_step c d) @ new2"
    "sorted_wrt (\<lambda>a b. e_id a < e_id b) new2"
    "next_event (store_step c d) \<le> next_event (fold store_step cs (store_step c d))"
    "\<forall>e\<in>set new2. next_event (store_step c d) \<le> e_id e \<and> e_id e < next_event (fold store_step cs (store_step c d))"
    using Cons [of "store_step c d"] by blast
  have "sorted_wrt (\<lambda>a b. e_id a < e_id b) (new1 @ new2)"
    using 1(2,4) 2(2,4) by (fastforce simp: sorted_wrt_append)
  with 1 2 show ?case by (intro exI [of _ "new1 @ new2"]) fastforce
qed simp

lemma select_events_sorted:
  assumes "sorted_wrt (\<lambda>a b. e_id a < e_id b) (db_events d)"
  shows "select_events j k d = filter (\<lambda>e. e_job_id e = j \<and> e_id e > k) (db_events d)"
proof -
  have "sorted (map e_id (filter P (db_events d)))" for P
    using assms by (induction "db_events d" arbitrary: d) (auto simp: sorted_map sorted_wrt_filter
        intro: sorted_wrt_mono_rel [of _ "\<lambda>a b. e_id a < e_id b"])
  then show ?thesis by (simp add: select_events_def sort_key_id_if_sorted)
qed

text \<open>
  An event stream resumes without loss and without replay. A reader that asks for the
  events after the last ID it saw, at any later time, gets exactly the events it has not
  seen: what it saw followed by that answer is the whole log after its first position, in
  increasing order of IDs.
\<close>

lemma events_resume:
  assumes "store_ok d" and seen: "seen = select_events j k d" and later: "d' = fold store_step cs d"
  shows "select_events j k d' = seen @ select_events j (if seen = [] then k else e_id (last seen)) d' \<and>
    sorted_wrt (\<lambda>a b. e_id a < e_id b) (select_events j k d')"
proof -
  define m where "m = (if seen = [] then k else e_id (last seen))"
  obtain new where new: "db_events d' = db_events d @ new" "sorted_wrt (\<lambda>a b. e_id a < e_id b) new"
    "\<forall>e\<in>set new. next_event d \<le> e_id e"
    using event_steps [of cs d] later by blast
  have old: "sorted_wrt (\<lambda>a b. e_id a < e_id b) (db_events d)" "\<forall>e\<in>set (db_events d). e_id e < next_event d"
    using assms(1) by (auto simp: store_ok_def events_ok_def)
  have all: "sorted_wrt (\<lambda>a b. e_id a < e_id b) (db_events d')"
    using old new by (fastforce simp: sorted_wrt_append)
  have log: "select_events j i d' = filter (\<lambda>e. e_job_id e = j \<and> e_id e > i) (db_events d) @
      filter (\<lambda>e. e_job_id e = j \<and> e_id e > i) new" for i
    using select_events_sorted [OF all] new(1) by simp
  have seen_eq: "seen = filter (\<lambda>e. e_job_id e = j \<and> e_id e > k) (db_events d)"
    using seen select_events_sorted [OF old(1)] by simp
  have "sorted_wrt (\<lambda>a b. e_id a < e_id b) seen" using old(1) by (simp add: seen_eq sorted_wrt_filter)
  then have top: "e_id e \<le> m" if "e \<in> set seen" for e
    using that by (cases seen rule: rev_cases) (auto simp: sorted_wrt_append m_def)
  have mem: "m = k \<or> (\<exists>e\<in>set (db_events d). m = e_id e \<and> k < m)"
  proof (cases "seen = []")
    case False
    then have "last seen \<in> set seen" by simp
    then have "last seen \<in> set (db_events d) \<and> k < e_id (last seen)" by (simp add: seen_eq)
    with False show ?thesis by (auto simp: m_def)
  qed (simp add: m_def)
  then have "k \<le> m" by auto
  have "filter (\<lambda>e. e_job_id e = j \<and> e_id e > m) (db_events d) = []"
    proof -
    have "\<not> (e_job_id e = j \<and> m < e_id e)" if "e \<in> set (db_events d)" for e
      using that top [of e] \<open>k \<le> m\<close> by (auto simp: seen_eq)
    then show ?thesis by (simp add: filter_empty_conv)
  qed
  moreover have "filter (\<lambda>e. e_job_id e = j \<and> e_id e > m) new = filter (\<lambda>e. e_job_id e = j \<and> e_id e > k) new"
    using mem old(2) new(3) by (intro filter_cong) fastforce+
  ultimately have "select_events j k d' = seen @ select_events j m d'"
    unfolding log by (simp add: seen_eq)
  moreover have "sorted_wrt (\<lambda>a b. e_id a < e_id b) (select_events j k d')"
    using all by (simp add: select_events_sorted [OF all] sorted_wrt_filter)
  ultimately show ?thesis unfolding m_def by blast
qed

end
