(* ===== verification/Jobs_Interfaces.thy ===== *)
theory Jobs_Interfaces
  imports Store_Tables
begin

text \<open>
  The interfaces of \<^verbatim>\<open>internal/jobs/jobs.go\<close>: \<open>JobStore\<close> and \<open>JobQueue\<close> as records of their
  methods, the values they pass, and the configuration of the service with its defaults. A
  method takes the state of the world and returns an error or a value with the next state, so
  a record can be the PostgreSQL store of this development, or any other implementation.
\<close>

section \<open>Values\<close>

record event =
  ev_ID :: int
  ev_Type :: string
  ev_Data :: payload
  ev_CreatedAt :: int

record worker_info =
  wi_ID :: string
  wi_Hostname :: string
  wi_PID :: int
  wi_Queue :: string
  wi_StartedAt :: int
  wi_LastBeatAt :: int
  wi_JobsClaimed :: int

record stats =
  QueueReady :: int
  QueueInFlight :: int
  Workers :: "worker_info list"

definition ErrLeaseLost :: gerror where
  "ErrLeaseLost = Sentinel ''job lease lost''"

definition EventQueued :: string where "EventQueued = ''job.queued''"
definition EventRunning :: string where "EventRunning = ''job.running''"
definition EventResumed :: string where "EventResumed = ''job.resumed''"
definition EventStepCompleted :: string where "EventStepCompleted = ''step.completed''"
definition EventReclaimed :: string where "EventReclaimed = ''job.reclaimed''"
definition EventAbandoned :: string where "EventAbandoned = ''job.abandoned''"
definition EventDeadLettered :: string where "EventDeadLettered = ''job.dead_lettered''"
definition EventCompleted :: string where "EventCompleted = ''job.completed''"

definition IsTerminal :: "string \<Rightarrow> bool" where
  "IsTerminal typ = (typ = EventCompleted \<or> typ = EventDeadLettered)"

section \<open>The interfaces\<close>

type_synonym ('w, 'r) op = "'w \<Rightarrow> (gerror + 'r) \<times> 'w"

record 'w job_store =
  st_Create :: "job \<Rightarrow> ('w, unit) op"
  st_Get :: "string \<Rightarrow> ('w, job option) op"
  st_ClaimJob :: "string \<Rightarrow> string \<Rightarrow> int \<Rightarrow> ('w, int \<times> bool) op"
  st_ExtendLease :: "string \<Rightarrow> string \<Rightarrow> int \<Rightarrow> ('w, bool) op"
  st_FinishJob :: "string \<Rightarrow> string \<Rightarrow> status \<Rightarrow> string \<Rightarrow> ('w, bool) op"
  st_ReleaseJob :: "string \<Rightarrow> string \<Rightarrow> ('w, unit) op"
  st_ReclaimExpiredJobs :: "int \<Rightarrow> int \<Rightarrow> ('w, string list) op"
  st_ClaimStep :: "string \<Rightarrow> string \<Rightarrow> string \<Rightarrow> ('w, bool) op"
  st_UpdateStep :: "string \<Rightarrow> string \<Rightarrow> step_result \<Rightarrow> ('w, unit) op"
  st_AppendEvent :: "string \<Rightarrow> string \<Rightarrow> payload \<Rightarrow> ('w, unit) op"
  st_Events :: "string \<Rightarrow> int \<Rightarrow> ('w, event list) op"
  st_RegisterWorker :: "worker_info \<Rightarrow> ('w, unit) op"
  st_HeartbeatWorker :: "string \<Rightarrow> int \<Rightarrow> ('w, unit) op"
  st_UnregisterWorker :: "string \<Rightarrow> ('w, unit) op"
  st_PruneWorkers :: "int \<Rightarrow> ('w, int) op"
  st_Workers :: "int \<Rightarrow> ('w, worker_info list) op"

record 'w job_queue =
  qu_Push :: "string \<Rightarrow> ('w, unit) op"
  qu_Claim :: "string \<Rightarrow> int \<Rightarrow> ('w, string) op"
  qu_Extend :: "string \<Rightarrow> string \<Rightarrow> int \<Rightarrow> ('w, bool) op"
  qu_Ack :: "string \<Rightarrow> ('w, unit) op"
  qu_Requeue :: "string \<Rightarrow> ('w, unit) op"
  qu_Reclaim :: "int \<Rightarrow> ('w, string list) op"
  qu_Depth :: "('w, int \<times> int) op"

section \<open>Config\<close>

text \<open>Durations are in nanoseconds, 64-bit integers.\<close>

definition second :: int where
  "second = 1000000000"

definition millisecond :: int where
  "millisecond = 1000000"

definition defaultLease :: int where "defaultLease = 30 * second"
definition defaultReaperInterval :: int where "defaultReaperInterval = 5 * second"
definition defaultReclaimBatch :: int where "defaultReclaimBatch = 100"

record config =
  Lease :: int
  Heartbeat :: int
  MaxAttempts :: int
  ReaperInterval :: int
  WorkerTTL :: int
  ReclaimBatch :: int
  QueueName :: string

definition Config_lease :: "config \<Rightarrow> int" where
  "Config_lease c = (if Lease c \<le> 0 then defaultLease else Lease c)"

text \<open>Go's division truncates; the lease is positive, so it is \<open>div\<close> here.\<close>

definition Config_heartbeat :: "config \<Rightarrow> int" where
  "Config_heartbeat c = (if Heartbeat c > 0 \<and> Heartbeat c < Config_lease c then Heartbeat c else Config_lease c div 3)"

definition Config_reaperInterval :: "config \<Rightarrow> int" where
  "Config_reaperInterval c = (if ReaperInterval c \<le> 0 then defaultReaperInterval else ReaperInterval c)"

definition Config_workerTTL :: "config \<Rightarrow> int" where
  "Config_workerTTL c = (if WorkerTTL c \<le> 0 then wrap64 (4 * Config_lease c) else WorkerTTL c)"

definition Config_reclaimBatch :: "config \<Rightarrow> int" where
  "Config_reclaimBatch c = (if ReclaimBatch c \<le> 0 then defaultReclaimBatch else ReclaimBatch c)"

lemma lease_pos: "0 < Config_lease c"
  by (simp add: Config_lease_def defaultLease_def second_def)

lemma reclaimBatch_pos: "0 < Config_reclaimBatch c"
  by (simp add: Config_reclaimBatch_def defaultReclaimBatch_def)

text \<open>
  The intervals fit the lease. For every configuration the heartbeat is shorter than the
  lease, so a worker renews before its lease ends; it is a positive ticker interval unless
  the lease is set to one or two nanoseconds, where the program panics. The time after which
  a silent worker is dropped is positive, and four leases by default, as long as four leases
  fit in 64 bits.
\<close>

lemma intervals_fit_lease:
  "0 < Config_lease c \<and> 0 < Config_reaperInterval c \<and> 0 < Config_reclaimBatch c \<and> Config_heartbeat c < Config_lease c \<and>
   (0 < Config_heartbeat c \<longleftrightarrow> \<not> (Lease c \<in> {1, 2} \<and> \<not> (0 < Heartbeat c \<and> Heartbeat c < Lease c))) \<and>
   (\<not> (in_int64 (4 * Config_lease c) \<and> Config_workerTTL c \<le> 0)) \<and>
   (\<not> (in_int64 (4 * Config_lease c) \<and> WorkerTTL c \<le> 0 \<and> Config_workerTTL c \<noteq> 4 * Config_lease c))"
  using lease_pos [of c] reclaimBatch_pos [of c]
  by (auto simp: Config_heartbeat_def Config_reaperInterval_def Config_workerTTL_def wrap64_id Config_lease_def defaultLease_def
      defaultReaperInterval_def second_def)

section \<open>Backoff of the claim loop\<close>

definition nextBackoff :: "int \<Rightarrow> int" where
  "nextBackoff current =
     (if current \<le> 0 then 100 * millisecond
      else let next = wrap64 (current * 2) in if next < 5 * second then next else 5 * second)"

lemma backoff_table:
  "(nextBackoff ^^ Suc n) 0 =
     (if n < 6 then 100 * millisecond * 2 ^ n else 5 * second)"
proof (induction n)
  case (Suc n)
  have "n = 0 \<or> n = 1 \<or> n = 2 \<or> n = 3 \<or> n = 4 \<or> n = 5 \<or> 5 < n" by linarith
  with Suc show ?case
    by (auto simp: nextBackoff_def millisecond_def second_def wrap64_def Let_def)
qed (simp add: nextBackoff_def)

text \<open>
  The claim loop backs off from 100 milliseconds, doubling up to 5 seconds. From zero,
  the wait after \<open>n + 1\<close> consecutive failures is 100 ms times \<open>2 ^ n\<close>, cut to five seconds: a
  broken queue neither makes the loop spin nor stall.
\<close>

lemma claim_backoff_is_bounded:
  "(nextBackoff ^^ Suc n) 0 = min (100 * millisecond * 2 ^ n) (5 * second)"
proof (cases "n < 6")
  case True
  then have "n = 0 \<or> n = 1 \<or> n = 2 \<or> n = 3 \<or> n = 4 \<or> n = 5" by linarith
  with True show ?thesis
    unfolding backoff_table by (auto simp: millisecond_def second_def)
next
  case False
  then have "(2::int) ^ 6 \<le> 2 ^ n" by (intro power_increasing) simp_all
  with False show ?thesis
    unfolding backoff_table by (simp add: millisecond_def second_def)
qed

end
