(* ===== verification/Jobs_Service.thy ===== *)
theory Jobs_Service
  imports Jobs_Interfaces Workflow_Run
begin

text \<open>
  The service of \<^verbatim>\<open>internal/jobs/jobs.go\<close>: submission, the processing of one delivery with
  the heartbeat that holds its lease, the reaper and the worker loop, over any implementation
  of \<open>JobStore\<close> and \<open>JobQueue\<close>. Log output is left out; it has no effect on the world.
\<close>

section \<open>The environment of a service\<close>

text \<open>
  \<open>en_run\<close> is a call of an agent; \<open>en_timer d\<close> waits in the \<open>select\<close> between a timer of
  duration \<open>d\<close> and the end of the context and says whether the timer was taken; \<open>en_done\<close> is
  the state of the context of the worker, \<open>Some (ctx.Err(), context.Cause(ctx))\<close> once it
  ended; \<open>en_beats\<close> says how many ticks of the heartbeat are handled by now; \<open>en_now\<close> and
  \<open>en_rand\<close> are the clock and the 16 random bytes of an ID.
\<close>

record ('a, 'w) env =
  en_run :: "'a \<Rightarrow> string \<Rightarrow> ('w, string) op"
  en_timer :: "int \<Rightarrow> 'w \<Rightarrow> bool \<times> 'w"
  en_done :: "'w \<Rightarrow> (gerror \<times> gerror) option"
  en_beats :: "'w \<Rightarrow> nat \<times> 'w"
  en_now :: "'w \<Rightarrow> int \<times> 'w"
  en_rand :: "('w, string) op"
  en_range :: "string list \<Rightarrow> string list"
  en_arrival :: "string list \<Rightarrow> string list"

record ('a, 'w) service =
  sv_Store :: "'w job_store"
  sv_Queue :: "'w job_queue"
  sv_Agents :: "string \<Rightarrow> 'a option"
  sv_Options :: options
  sv_Config :: config

definition Canceled :: gerror where
  "Canceled = Sentinel ''context canceled''"

section \<open>IDs and texts\<close>

definition hex_byte :: "char \<Rightarrow> string" where
  "hex_byte c = [hex_digit (of_char c div 16), hex_digit (of_char c mod 16)]"

definition NewID :: "('a, 'w) env \<Rightarrow> ('w, string) op" where
  "NewID env w =
     (case en_rand env w of
        (Inl e, w1) \<Rightarrow> (Inl (Wrapf (''generate ID: '' @ error_text e) e), w1)
      | (Inr bytes, w1) \<Rightarrow> (Inr (concat (map hex_byte bytes)), w1))"

definition NewWorkerID :: "('a, 'w) env \<Rightarrow> string \<Rightarrow> int \<Rightarrow> ('w, string) op" where
  "NewWorkerID env hostname pid w =
     (case NewID env w of
        (Inl e, w1) \<Rightarrow> (Inl e, w1)
      | (Inr suffix, w1) \<Rightarrow>
          (let host = (if hostname = [] then ''unknown'' else hostname)
           in (Inr (host @ ''-'' @ itoa pid @ ''-'' @ take 8 suffix), w1)))"

definition graph_gerror :: "graph_error \<Rightarrow> gerror" where
  "graph_gerror e = Errorf
     (case e of
        NegativeOptions \<Rightarrow> ''workflow options must be non-negative''
      | NoSteps \<Rightarrow> ''workflow requires at least one step''
      | MissingField \<Rightarrow> ''each step requires an id, agent, and prompt''
      | DuplicateStep s \<Rightarrow> ''duplicate step id '' @ go_quote s
      | InvalidDependency s \<Rightarrow> ''step '' @ go_quote s @ '' has an invalid dependency''
      | UnknownDependency s d \<Rightarrow> ''step '' @ go_quote s @ '' depends on unknown step '' @ go_quote d
      | DuplicateDependency s d \<Rightarrow> ''step '' @ go_quote s @ '' has duplicate dependency '' @ go_quote d
      | DependencyCycle \<Rightarrow> ''workflow dependencies contain a cycle'')"

section \<open>Submit\<close>

fun resolveSteps :: "(string \<Rightarrow> 'a option) \<Rightarrow> job_step list \<Rightarrow> gerror + 'a step list" where
  "resolveSteps agents [] = Inr []"
| "resolveSteps agents (input # inputs) =
     (case agents (js_Agent input) of
        None \<Rightarrow> Inl (Errorf (''unknown agent: '' @ js_Agent input))
      | Some agent \<Rightarrow>
          (case resolveSteps agents inputs of
             Inl e \<Rightarrow> Inl e
           | Inr rest \<Rightarrow> Inr (\<lparr>step_ID = js_ID input, step_Agent = Some agent, step_Prompt = js_Prompt input,
                               step_DependsOn = js_DependsOn input\<rparr> # rest)))"

definition pending_result :: "job_step \<Rightarrow> step_result" where
  "pending_result s = \<lparr>result_ID = js_ID s, result_Status = Pending, result_Attempts = 0, result_Output = [],
                       result_Error = []\<rparr>"

definition new_job :: "string \<Rightarrow> int \<Rightarrow> job_step list \<Rightarrow> job" where
  "new_job j now ss =
     \<lparr>job_ID = j, job_Status = Pending, job_Attempts = 0, job_Owner = [], job_Error = [], job_CreatedAt = now,
      job_StartedAt = None, job_FinishedAt = None, job_LeaseExpiresAt = None, job_Steps = ss,
      job_Results = map pending_result ss\<rparr>"

definition Submit :: "('a, 'w) env \<Rightarrow> ('a, 'w) service \<Rightarrow> job_step list \<Rightarrow> ('w, job) op" where
  "Submit env sv ss w =
     (case resolveSteps (sv_Agents sv) ss of
        Inl e \<Rightarrow> (Inl e, w)
      | Inr wsteps \<Rightarrow>
          (case NewWorkflow (en_range env) wsteps (sv_Options sv) of
             Inl e \<Rightarrow> (Inl (graph_gerror e), w)
           | Inr _ \<Rightarrow>
               (case NewID env w of
                  (Inl e, w1) \<Rightarrow> (Inl e, w1)
                | (Inr j, w1) \<Rightarrow>
                    (let (now, w2) = en_now env w1; job = new_job j now ss
                     in case st_Create (sv_Store sv) job w2 of
                          (Inl e, w3) \<Rightarrow> (Inl e, w3)
                        | (Inr _, w3) \<Rightarrow>
                            (case st_AppendEvent (sv_Store sv) j EventQueued (QueuedJob job) w3 of
                               (Inl e, w4) \<Rightarrow> (Inl e, w4)
                             | (Inr _, w4) \<Rightarrow>
                                 (case qu_Push (sv_Queue sv) j w4 of
                                    (Inl e, w5) \<Rightarrow>
                                      (let (_, w6) = st_FinishJob (sv_Store sv) j [] Failed
                                             (''enqueue failed: '' @ error_text e) w5
                                       in (Inl (Wrapf (''enqueue job: '' @ error_text e) e), w6))
                                  | (Inr _, w5) \<Rightarrow> (Inr job, w5)))))))"

section \<open>The state of a run\<close>

text \<open>
  What the goroutines of one delivery share: the fence, the state of the run's context with
  its error and cause, and whether the heartbeat loop is still running.
\<close>

record 'w run_state =
  rs_lost :: bool
  rs_ctx :: "(gerror \<times> gerror) option"
  rs_holding :: bool
  rs_w :: 'w

definition observe :: "('a, 'w) env \<Rightarrow> 'w run_state \<Rightarrow> 'w run_state" where
  "observe env rs = (if rs_ctx rs = None then rs\<lparr>rs_ctx := en_done env (rs_w rs)\<rparr> else rs)"

text \<open>One tick of \<open>holdLease\<close>. The first cancellation of a context sets its cause.\<close>

definition holdLease_tick :: "('a, 'w) service \<Rightarrow> string \<Rightarrow> string \<Rightarrow> 'w run_state \<Rightarrow> 'w run_state" where
  "holdLease_tick sv j worker rs =
     (let lease = Config_lease (sv_Config sv)
      in case st_ExtendLease (sv_Store sv) j worker lease (rs_w rs) of
           (Inl e, w1) \<Rightarrow> rs\<lparr>rs_w := w1\<rparr>
         | (Inr heldStore, w1) \<Rightarrow>
             (case qu_Extend (sv_Queue sv) j worker lease w1 of
                (Inl e, w2) \<Rightarrow> rs\<lparr>rs_w := w2\<rparr>
              | (Inr heldQueue, w2) \<Rightarrow>
                  if \<not> heldStore \<or> \<not> heldQueue
                  then rs\<lparr>rs_w := w2, rs_holding := False,
                          rs_ctx := (if rs_ctx rs = None then Some (Canceled, ErrLeaseLost) else rs_ctx rs)\<rparr>
                  else rs\<lparr>rs_w := w2\<rparr>))"

fun holdLease :: "('a, 'w) env \<Rightarrow> ('a, 'w) service \<Rightarrow> string \<Rightarrow> string \<Rightarrow> nat \<Rightarrow> 'w run_state \<Rightarrow> 'w run_state" where
  "holdLease env sv j worker 0 rs = observe env rs"
| "holdLease env sv j worker (Suc n) rs =
     (let rs1 = observe env rs
      in if \<not> rs_holding rs1 \<or> rs_ctx rs1 \<noteq> None then rs1\<lparr>rs_holding := False\<rparr>
         else holdLease env sv j worker n (holdLease_tick sv j worker rs1))"

text \<open>
  The point where the run lets the heartbeat goroutine and the context catch up: before each
  call the run makes.
\<close>

definition yield_run :: "('a, 'w) env \<Rightarrow> ('a, 'w) service \<Rightarrow> string \<Rightarrow> string \<Rightarrow> 'w run_state \<Rightarrow> 'w run_state" where
  "yield_run env sv j worker rs =
     (let (n, w1) = en_beats env (rs_w rs) in holdLease env sv j worker n (rs\<lparr>rs_w := w1\<rparr>))"

section \<open>runJob\<close>

record 'a fencedAgent =
  fa_inner :: 'a
  fa_jobID :: string
  fa_stepID :: string
  fa_owner :: string

definition fencedAgent_Run ::
  "('a, 'w) env \<Rightarrow> ('a, 'w) service \<Rightarrow> 'a fencedAgent \<Rightarrow> string \<Rightarrow> ('w run_state, string) op" where
  "fencedAgent_Run env sv a prompt rs =
     (case st_ClaimStep (sv_Store sv) (fa_jobID a) (fa_stepID a) (fa_owner a) (rs_w rs) of
        (Inl e, w1) \<Rightarrow>
          (Inl (Wrapf (''claim step '' @ go_quote (fa_stepID a) @ '': '' @ error_text e) e), rs\<lparr>rs_w := w1\<rparr>)
      | (Inr claimed, w1) \<Rightarrow>
          if \<not> claimed
          then (Inl (Wrapf (error_text ErrLeaseLost @ '': step '' @ go_quote (fa_stepID a) @ '' is no longer ours'')
                       ErrLeaseLost), rs\<lparr>rs_w := w1, rs_lost := True\<rparr>)
          else (let (r, w2) = en_run env (fa_inner a) prompt w1 in (r, rs\<lparr>rs_w := w2\<rparr>)))"

definition fence_steps :: "string \<Rightarrow> string \<Rightarrow> 'a step list \<Rightarrow> 'a fencedAgent step list" where
  "fence_steps j worker =
     map (\<lambda>s. \<lparr>step_ID = step_ID s,
                step_Agent = map_option (\<lambda>a. \<lparr>fa_inner = a, fa_jobID = j, fa_stepID = step_ID s, fa_owner = worker\<rparr>)
                  (step_Agent s),
                step_Prompt = step_Prompt s, step_DependsOn = step_DependsOn s\<rparr>)"

definition resumable :: "job \<Rightarrow> step_result list" where
  "resumable job = filter (\<lambda>r. result_Status r = Succeeded) (job_Results job)"

text \<open>The observer of the run: \<open>OnStepState\<close>.\<close>

definition record_step ::
  "('a, 'w) env \<Rightarrow> ('a, 'w) service \<Rightarrow> string \<Rightarrow> string \<Rightarrow> step_result \<Rightarrow> 'w run_state \<Rightarrow> 'w run_state" where
  "record_step env sv j worker result rs =
     (let rs1 = yield_run env sv j worker rs;
          (_, w1) = st_UpdateStep (sv_Store sv) j worker result (rs_w rs1);
          (_, w2) = st_AppendEvent (sv_Store sv) j EventStepCompleted (StepOutcome result) w1
      in rs1\<lparr>rs_w := w2\<rparr>)"

text \<open>
  The wait between two attempts: \<open>en_timer\<close> says which branch of the \<open>select\<close> was taken; the
  context branch needs a context that ended.
\<close>

definition run_sleep ::
  "('a, 'w) env \<Rightarrow> ('a, 'w) service \<Rightarrow> string \<Rightarrow> string \<Rightarrow> int \<Rightarrow> 'w run_state \<Rightarrow> gerror option \<times> 'w run_state" where
  "run_sleep env sv j worker d rs =
     (let (fired, w1) = en_timer env d (rs_w rs); rs1 = yield_run env sv j worker (rs\<lparr>rs_w := w1\<rparr>)
      in case rs_ctx rs1 of
           None \<Rightarrow> (None, rs1)
         | Some (err, _) \<Rightarrow> (if fired then None else Some err, rs1))"

definition job_runtime ::
  "('a, 'w) env \<Rightarrow> ('a, 'w) service \<Rightarrow> string \<Rightarrow> string \<Rightarrow> ('a fencedAgent, 'w run_state) runtime" where
  "job_runtime env sv j worker =
     \<lparr>rt_call = (\<lambda>agent prompt rs. case agent of
          None \<Rightarrow> (Inl (Sentinel ''panic: nil agent''), rs)
        | Some a \<Rightarrow> fencedAgent_Run env sv a prompt (yield_run env sv j worker rs)),
      rt_sleep = run_sleep env sv j worker,
      rt_notify = record_step env sv j worker,
      rt_range = en_range env, rt_arrival = en_arrival env\<rparr>"

text \<open>
  The results, the error of the job (terminal) and the error of the infrastructure
  (another worker retries).
\<close>

definition run_outcome ::
  "'w run_state \<Rightarrow> step_result list \<Rightarrow> workflow_error option \<Rightarrow> step_result list \<times> gerror option \<times> gerror option" where
  "run_outcome rs results runErr =
     (case rs_ctx rs of
        Some (err, cause) \<Rightarrow>
          if \<not> errors_is cause Canceled then (results, None, Some cause) else (results, None, Some err)
      | None \<Rightarrow>
          if rs_lost rs \<or> (case runErr of None \<Rightarrow> False | Some e \<Rightarrow> errors_is (workflow_gerror e) ErrLeaseLost)
          then (results, None, Some ErrLeaseLost)
          else (results, map_option workflow_gerror runErr, None))"

definition announce_resume ::
  "('a, 'w) env \<Rightarrow> ('a, 'w) service \<Rightarrow> string \<Rightarrow> string \<Rightarrow> step_result list \<Rightarrow> 'w run_state \<Rightarrow> 'w run_state" where
  "announce_resume env sv worker j resume rs =
     (if resume \<noteq> []
      then let rs1 = yield_run env sv j worker rs
           in rs1\<lparr>rs_w := snd (st_AppendEvent (sv_Store sv) j EventResumed
                (CompletedSteps (int (length resume))) (rs_w rs1))\<rparr>
      else rs)"

definition run_steps ::
  "('a, 'w) env \<Rightarrow> ('a, 'w) service \<Rightarrow> string \<Rightarrow> string \<Rightarrow> 'a step list \<Rightarrow> step_result list \<Rightarrow> 'w run_state
   \<Rightarrow> (step_result list \<times> gerror option \<times> gerror option) \<times> 'w run_state" where
  "run_steps env sv worker j wsteps resume rs =
     (let rs1 = announce_resume env sv worker j resume rs
      in case NewWorkflow (en_range env) (fence_steps j worker wsteps) ((sv_Options sv)\<lparr>Resume := resume\<rparr>) of
           Inl e \<Rightarrow> (([], Some (graph_gerror e), None), rs1)
         | Inr plan \<Rightarrow>
             (case Run (job_runtime env sv j worker) plan rs1 of
                ((results, runErr), rs2) \<Rightarrow>
                  (let rs3 = yield_run env sv j worker rs2 in (run_outcome rs3 results runErr, rs3))))"

definition runJob ::
  "('a, 'w) env \<Rightarrow> ('a, 'w) service \<Rightarrow> string \<Rightarrow> string \<Rightarrow> 'w run_state
   \<Rightarrow> (step_result list \<times> gerror option \<times> gerror option) \<times> 'w run_state" where
  "runJob env sv worker j rs =
     (let rs0 = yield_run env sv j worker rs
      in case st_Get (sv_Store sv) j (rs_w rs0) of
           (Inl e, w1) \<Rightarrow>
             (([], None, Some (Wrapf (''load job '' @ j @ '': '' @ error_text e) e)), rs0\<lparr>rs_w := w1\<rparr>)
         | (Inr None, w1) \<Rightarrow>
             (([], Some (Errorf (''job '' @ j @ '' disappeared from the store'')), None), rs0\<lparr>rs_w := w1\<rparr>)
         | (Inr (Some job), w1) \<Rightarrow>
             (case resolveSteps (sv_Agents sv) (job_Steps job) of
                Inl e \<Rightarrow> (([], Some e, None), rs0\<lparr>rs_w := w1\<rparr>)
              | Inr wsteps \<Rightarrow> run_steps env sv worker j wsteps (resumable job) (rs0\<lparr>rs_w := w1\<rparr>)))"

section \<open>process\<close>

definition ack :: "('a, 'w) service \<Rightarrow> string \<Rightarrow> 'w \<Rightarrow> 'w" where
  "ack sv j w = snd (qu_Ack (sv_Queue sv) j w)"

definition abandon :: "('a, 'w) service \<Rightarrow> string \<Rightarrow> string \<Rightarrow> gerror \<Rightarrow> 'w \<Rightarrow> 'w" where
  "abandon sv worker j cause w =
     (let (_, w1) = st_AppendEvent (sv_Store sv) j EventAbandoned (AbandonedBy worker (error_text cause)) w
      in if errors_is cause ErrLeaseLost then w1
         else case st_ReleaseJob (sv_Store sv) j worker w1 of
                (Inl e, w2) \<Rightarrow> w2
              | (Inr _, w2) \<Rightarrow> snd (qu_Requeue (sv_Queue sv) j w2))"

definition deadLetter :: "('a, 'w) service \<Rightarrow> string \<Rightarrow> string \<Rightarrow> int \<Rightarrow> int \<Rightarrow> 'w \<Rightarrow> 'w" where
  "deadLetter sv worker j attempts limit w =
     (let reason = ''exceeded '' @ itoa limit @ '' delivery attempt(s)'';
          (_, w1) = st_FinishJob (sv_Store sv) j worker Failed reason w
      in snd (st_AppendEvent (sv_Store sv) j EventDeadLettered (DeadLetter attempts limit worker) w1))"

text \<open>The return statement \<open>process\<close> leaves by.\<close>

datatype outcome =
  ClaimFailed | DuplicateDelivery | DeadLettered | Abandoned gerror | FinishFailed | Superseded | Completed status

definition persist_results :: "('a, 'w) service \<Rightarrow> string \<Rightarrow> string \<Rightarrow> step_result list \<Rightarrow> 'w \<Rightarrow> 'w" where
  "persist_results sv j worker results w =
     fold (\<lambda>r w. snd (st_UpdateStep (sv_Store sv) j worker r w)) results w"

definition start_run :: "('a, 'w) env \<Rightarrow> 'w \<Rightarrow> 'w run_state" where
  "start_run env w = observe env \<lparr>rs_lost = False, rs_ctx = None, rs_holding = True, rs_w = w\<rparr>"

text \<open>What \<open>process\<close> does after the run: it gives the job back, or records its outcome.\<close>

definition conclude ::
  "('a, 'w) service \<Rightarrow> string \<Rightarrow> string \<Rightarrow> int \<Rightarrow> step_result list \<times> gerror option \<times> gerror option \<Rightarrow> 'w
   \<Rightarrow> outcome \<times> 'w" where
  "conclude sv worker j attempts res w =
     (case res of
        (results, jobErr, Some cause) \<Rightarrow> (Abandoned cause, abandon sv worker j cause w)
      | (results, jobErr, None) \<Rightarrow>
          (let st = (case jobErr of None \<Rightarrow> Succeeded | Some _ \<Rightarrow> Failed);
               message = (case jobErr of None \<Rightarrow> [] | Some e \<Rightarrow> error_text e)
           in case st_FinishJob (sv_Store sv) j worker st message (persist_results sv j worker results w) of
                (Inl e, w1) \<Rightarrow> (FinishFailed, w1)
              | (Inr held, w1) \<Rightarrow>
                  if \<not> held then (Superseded, w1)
                  else (Completed st, ack sv j (snd (st_AppendEvent (sv_Store sv) j EventCompleted
                          (FinishedJob st results worker attempts) w1)))))"

definition execute ::
  "('a, 'w) env \<Rightarrow> ('a, 'w) service \<Rightarrow> string \<Rightarrow> string \<Rightarrow> int \<Rightarrow> 'w \<Rightarrow> outcome \<times> 'w" where
  "execute env sv worker j attempts w =
     (let w1 = snd (st_AppendEvent (sv_Store sv) j EventRunning (RunningJob Running worker attempts) w)
      in case runJob env sv worker j (start_run env w1) of
           (res, rs) \<Rightarrow> conclude sv worker j attempts res (rs_w rs))"

definition process :: "('a, 'w) env \<Rightarrow> ('a, 'w) service \<Rightarrow> string \<Rightarrow> string \<Rightarrow> 'w \<Rightarrow> outcome \<times> 'w" where
  "process env sv worker j w =
     (case st_ClaimJob (sv_Store sv) j worker (Config_lease (sv_Config sv)) w of
        (Inl e, w1) \<Rightarrow> (ClaimFailed, w1)
      | (Inr (attempts, claimed), w1) \<Rightarrow>
          if \<not> claimed then (DuplicateDelivery, ack sv j w1)
          else
            (let limit = MaxAttempts (sv_Config sv)
             in if limit > 0 \<and> attempts > limit
                then (DeadLettered, ack sv j (deadLetter sv worker j attempts limit w1))
                else execute env sv worker j attempts w1))"

section \<open>The reaper\<close>

definition reap_queue :: "('a, 'w) service \<Rightarrow> 'w \<Rightarrow> 'w" where
  "reap_queue sv w =
     (case qu_Reclaim (sv_Queue sv) (Config_reclaimBatch (sv_Config sv)) w of
        (Inl e, w1) \<Rightarrow> w1
      | (Inr recovered, w1) \<Rightarrow>
          fold (\<lambda>j w. snd (st_AppendEvent (sv_Store sv) j EventReclaimed (Reason ''queue lease expired'') w))
            recovered w1)"

definition reenqueue :: "('a, 'w) service \<Rightarrow> string \<Rightarrow> 'w \<Rightarrow> 'w" where
  "reenqueue sv j w =
     (case qu_Push (sv_Queue sv) j w of
        (Inl e, w1) \<Rightarrow> w1
      | (Inr _, w1) \<Rightarrow> snd (st_AppendEvent (sv_Store sv) j EventReclaimed (Reason ''store lease expired'') w1))"

definition reap :: "('a, 'w) service \<Rightarrow> 'w \<Rightarrow> 'w" where
  "reap sv w =
     (let batch = Config_reclaimBatch (sv_Config sv); w1 = reap_queue sv w
      in case st_ReclaimExpiredJobs (sv_Store sv) (Config_lease (sv_Config sv)) batch w1 of
           (Inl e, w2) \<Rightarrow> w2
         | (Inr orphans, w2) \<Rightarrow>
             (let w3 = fold (reenqueue sv) orphans w2
              in snd (st_PruneWorkers (sv_Store sv) (Config_workerTTL (sv_Config sv)) w3)))"

section \<open>RunReaper\<close>

text \<open>
  The loop of the reaper, with a bound on its iterations: each waits in the \<open>select\<close> between a
  tick and the end of the context. \<open>None\<close> is a reaper still running.
\<close>

fun RunReaper :: "('a, 'w) env \<Rightarrow> ('a, 'w) service \<Rightarrow> nat \<Rightarrow> 'w \<Rightarrow> gerror option \<times> 'w" where
  "RunReaper env sv 0 w = (None, w)"
| "RunReaper env sv (Suc n) w =
     (let (fired, w1) = en_timer env (Config_reaperInterval (sv_Config sv)) w
      in case (fired, en_done env w1) of
           (False, Some (err, _)) \<Rightarrow> (Some err, w1)
         | _ \<Rightarrow> RunReaper env sv n (reap sv w1))"

section \<open>RunWorker\<close>

text \<open>
  One beat of the registry goroutine: the counter of claimed jobs is swapped for 0 and reported;
  an error is only logged.
\<close>

definition worker_beat :: "('a, 'w) service \<Rightarrow> string \<Rightarrow> int \<times> 'w \<Rightarrow> int \<times> 'w" where
  "worker_beat sv worker = (\<lambda>(claimed, w). (0, snd (st_HeartbeatWorker (sv_Store sv) worker claimed w)))"

text \<open>
  The loop of a worker, with a bound on its iterations: it returns only when its context
  ends, so \<open>None\<close> is a worker still running after \<open>n\<close> iterations. The registry goroutine shares
  the counter with the loop; the beats that came during an iteration are placed before the next one.
\<close>

fun claim_loop ::
  "('a, 'w) env \<Rightarrow> ('a, 'w) service \<Rightarrow> string \<Rightarrow> nat \<Rightarrow> int \<Rightarrow> int \<Rightarrow> 'w \<Rightarrow> gerror option \<times> int \<times> 'w" where
  "claim_loop env sv worker 0 backoff claimed w = (None, claimed, w)"
| "claim_loop env sv worker (Suc n) backoff claimed0 w0 =
     (let (ticks, w') = en_beats env w0; (claimed, w) = (worker_beat sv worker ^^ ticks) (claimed0, w')
      in case en_done env w of
        Some (err, _) \<Rightarrow> (Some err, claimed, w)
      | None \<Rightarrow>
          (case qu_Claim (sv_Queue sv) worker (Config_lease (sv_Config sv)) w of
             (Inl e, w1) \<Rightarrow>
               (case en_done env w1 of
                  Some (err, _) \<Rightarrow> (Some err, claimed, w1)
                | None \<Rightarrow>
                    (let backoff1 = nextBackoff backoff; (fired, w2) = en_timer env backoff1 w1
                     in case (fired, en_done env w2) of
                          (False, Some (err, _)) \<Rightarrow> (Some err, claimed, w2)
                        | _ \<Rightarrow> claim_loop env sv worker n backoff1 claimed w2))
           | (Inr j, w1) \<Rightarrow>
               if j = [] then claim_loop env sv worker n 0 claimed w1
               else claim_loop env sv worker n 0 (claimed + 1) (snd (process env sv worker j w1))))"

definition RunWorker ::
  "('a, 'w) env \<Rightarrow> ('a, 'w) service \<Rightarrow> string \<Rightarrow> int \<Rightarrow> string \<Rightarrow> nat \<Rightarrow> 'w \<Rightarrow> gerror option \<times> 'w" where
  "RunWorker env sv hostname pid worker n w =
     (let info = \<lparr>wi_ID = worker, wi_Hostname = hostname, wi_PID = pid, wi_Queue = QueueName (sv_Config sv),
                  wi_StartedAt = 0, wi_LastBeatAt = 0, wi_JobsClaimed = 0\<rparr>
      in case st_RegisterWorker (sv_Store sv) info w of
           (Inl e, w1) \<Rightarrow> (Some (Wrapf (''register worker: '' @ error_text e) e), w1)
         | (Inr _, w1) \<Rightarrow>
             (case claim_loop env sv worker n 0 0 w1 of
                (None, claimed, w2) \<Rightarrow> (None, w2)
              | (Some e, claimed, w2) \<Rightarrow> (Some e, snd (st_UnregisterWorker (sv_Store sv) worker w2))))"

section \<open>Reads\<close>

definition Service_Get :: "('a, 'w) service \<Rightarrow> string \<Rightarrow> ('w, job option) op" where
  "Service_Get sv j = st_Get (sv_Store sv) j"

definition Service_Events :: "('a, 'w) service \<Rightarrow> string \<Rightarrow> int \<Rightarrow> ('w, event list) op" where
  "Service_Events sv j after = st_Events (sv_Store sv) j after"

definition Stats :: "('a, 'w) service \<Rightarrow> ('w, stats) op" where
  "Stats sv w =
     (case qu_Depth (sv_Queue sv) w of
        (Inl e, w1) \<Rightarrow> (Inl e, w1)
      | (Inr (ready, inFlight), w1) \<Rightarrow>
          (case st_Workers (sv_Store sv) (Config_workerTTL (sv_Config sv)) w1 of
             (Inl e, w2) \<Rightarrow> (Inl e, w2)
           | (Inr ws, w2) \<Rightarrow> (Inr \<lparr>QueueReady = ready, QueueInFlight = inFlight, Workers = ws\<rparr>, w2)))"

end
