(* ===== verification/Service_Trace.thy ===== *)
theory Service_Trace
  imports Jobs_Service Workflow_Spec
begin

text \<open>
  The calls one delivery makes. \<open>spy_store\<close> and \<open>spy_queue\<close> put a recorder in front of any
  store and any queue: each call is forwarded and appended to a trace with its arguments and
  its answer. What \<open>process\<close> does is then a statement about traces that holds for every
  implementation of the interfaces, every interleaving and every failure.
\<close>

section \<open>Recording\<close>

datatype call =
  TClaimJob string string int "gerror + int \<times> bool"
| TExtendLease string string "gerror + bool"
| TFinishJob string string status string "gerror + bool"
| TReleaseJob string string "gerror + unit"
| TGet string "gerror + job option"
| TClaimStep string string string "gerror + bool"
| TUpdateStep string string step_result
| TAppend string string payload
| TExtend string string "gerror + bool"
| TAck string
| TRequeue string
| TAgent string
| TOther

type_synonym 'w traced = "'w \<times> call list"

definition spy :: "((gerror + 'r) \<Rightarrow> call) \<Rightarrow> ('w, 'r) op \<Rightarrow> ('w traced, 'r) op" where
  "spy entry f wt = (case f (fst wt) of (r, w') \<Rightarrow> (r, (w', snd wt @ [entry r])))"

definition spy_store :: "'w job_store \<Rightarrow> 'w traced job_store" where
  "spy_store st =
     \<lparr>st_Create = (\<lambda>job. spy (\<lambda>r. TOther) (st_Create st job)),
      st_Get = (\<lambda>j. spy (TGet j) (st_Get st j)),
      st_ClaimJob = (\<lambda>j w l. spy (TClaimJob j w l) (st_ClaimJob st j w l)),
      st_ExtendLease = (\<lambda>j w l. spy (TExtendLease j w) (st_ExtendLease st j w l)),
      st_FinishJob = (\<lambda>j w s e. spy (TFinishJob j w s e) (st_FinishJob st j w s e)),
      st_ReleaseJob = (\<lambda>j w. spy (TReleaseJob j w) (st_ReleaseJob st j w)),
      st_ReclaimExpiredJobs = (\<lambda>g l. spy (\<lambda>r. TOther) (st_ReclaimExpiredJobs st g l)),
      st_ClaimStep = (\<lambda>j s w. spy (TClaimStep j s w) (st_ClaimStep st j s w)),
      st_UpdateStep = (\<lambda>j w res. spy (\<lambda>r. TUpdateStep j w res) (st_UpdateStep st j w res)),
      st_AppendEvent = (\<lambda>j ty p. spy (\<lambda>r. TAppend j ty p) (st_AppendEvent st j ty p)),
      st_Events = (\<lambda>j k. spy (\<lambda>r. TOther) (st_Events st j k)),
      st_RegisterWorker = (\<lambda>i. spy (\<lambda>r. TOther) (st_RegisterWorker st i)),
      st_HeartbeatWorker = (\<lambda>w n. spy (\<lambda>r. TOther) (st_HeartbeatWorker st w n)),
      st_UnregisterWorker = (\<lambda>w. spy (\<lambda>r. TOther) (st_UnregisterWorker st w)),
      st_PruneWorkers = (\<lambda>t. spy (\<lambda>r. TOther) (st_PruneWorkers st t)),
      st_Workers = (\<lambda>t. spy (\<lambda>r. TOther) (st_Workers st t))\<rparr>"

definition spy_queue :: "'w job_queue \<Rightarrow> 'w traced job_queue" where
  "spy_queue qu =
     \<lparr>qu_Push = (\<lambda>j. spy (\<lambda>r. TOther) (qu_Push qu j)),
      qu_Claim = (\<lambda>w l. spy (\<lambda>r. TOther) (qu_Claim qu w l)),
      qu_Extend = (\<lambda>j w l. spy (TExtend j w) (qu_Extend qu j w l)),
      qu_Ack = (\<lambda>j. spy (\<lambda>r. TAck j) (qu_Ack qu j)),
      qu_Requeue = (\<lambda>j. spy (\<lambda>r. TRequeue j) (qu_Requeue qu j)),
      qu_Reclaim = (\<lambda>l. spy (\<lambda>r. TOther) (qu_Reclaim qu l)),
      qu_Depth = spy (\<lambda>r. TOther) (qu_Depth qu)\<rparr>"

definition unseen :: "('w \<Rightarrow> 'r \<times> 'w) \<Rightarrow> 'w traced \<Rightarrow> 'r \<times> 'w traced" where
  "unseen f wt = (case f (fst wt) of (r, w') \<Rightarrow> (r, (w', snd wt)))"

definition spy_env :: "('a, 'w) env \<Rightarrow> ('a, 'w traced) env" where
  "spy_env env =
     \<lparr>en_run = (\<lambda>a p. spy (\<lambda>r. TAgent p) (en_run env a p)), en_timer = (\<lambda>d. unseen (en_timer env d)),
      en_done = (\<lambda>wt. en_done env (fst wt)), en_beats = unseen (en_beats env), en_now = unseen (en_now env),
      en_rand = unseen (en_rand env), en_range = en_range env, en_arrival = en_arrival env\<rparr>"

definition spy_service :: "('a, 'w) service \<Rightarrow> ('a, 'w traced) service" where
  "spy_service sv =
     \<lparr>sv_Store = spy_store (sv_Store sv), sv_Queue = spy_queue (sv_Queue sv), sv_Agents = sv_Agents sv,
      sv_Options = sv_Options sv, sv_Config = sv_Config sv\<rparr>"

lemma spyE:
  assumes "spy entry f wt = (r, wt')"
  obtains w' where "f (fst wt) = (r, w')" "wt' = (w', snd wt @ [entry r])"
  using assms by (auto simp: spy_def split: prod.splits)

lemma spy_trace: "snd (snd (spy entry f wt)) = snd wt @ [entry (fst (spy entry f wt))]"
  by (simp add: spy_def split_beta)

lemma unseen_trace: "snd (snd (unseen f wt)) = snd wt"
  by (simp add: unseen_def split_beta)

section \<open>The calls of a run\<close>

text \<open>
  What the run and its heartbeat may call between the claim of a job and its conclusion:
  nothing that ends, releases, acknowledges or requeues the job, and every write in the name
  of the worker. No step of \<open>D\<close> is claimed.
\<close>

fun run_call :: "string set \<Rightarrow> string \<Rightarrow> string \<Rightarrow> call \<Rightarrow> bool" where
  "run_call D j w (TExtendLease i v r) = (i = j \<and> v = w)"
| "run_call D j w (TExtend i v r) = (i = j \<and> v = w)"
| "run_call D j w (TClaimStep i s v r) = (i = j \<and> v = w \<and> s \<notin> D)"
| "run_call D j w (TUpdateStep i v res) = (i = j \<and> v = w)"
| "run_call D j w (TAppend i ty p) = (i = j \<and> ty \<in> {EventResumed, EventStepCompleted})"
| "run_call D j w (TAgent p) = True"
| "run_call D j w _ = False"

fun is_agent :: "call \<Rightarrow> bool" where
  "is_agent (TAgent p) = True"
| "is_agent _ = False"

fun granted :: "string \<Rightarrow> string \<Rightarrow> call \<Rightarrow> bool" where
  "granted j w (TClaimStep i s v r) = (i = j \<and> v = w \<and> r = Inr True)"
| "granted j w _ = False"

fun denied :: "call \<Rightarrow> bool" where
  "denied (TClaimStep i s v r) = (r = Inr False)"
| "denied _ = False"

text \<open>Every agent call comes directly after a granted step claim.\<close>

definition fenced :: "string \<Rightarrow> string \<Rightarrow> call list \<Rightarrow> bool" where
  "fenced j w tr \<longleftrightarrow> (tr = [] \<or> \<not> is_agent (hd tr)) \<and> successively (\<lambda>a b. is_agent b \<longrightarrow> granted j w a) tr"

lemma fenced_Nil [simp]: "fenced j w []"
  by (simp add: fenced_def)

lemma fenced_append: "fenced j w tr \<Longrightarrow> fenced j w new \<Longrightarrow> fenced j w (tr @ new)"
  by (auto simp: fenced_def successively_append_iff hd_append)

lemma fenced_no_agent: "\<not> list_ex is_agent new \<Longrightarrow> fenced j w new"
  by (induction new) (auto simp: fenced_def successively_Cons)

definition grows :: "string set \<Rightarrow> string \<Rightarrow> string \<Rightarrow> 'w traced run_state \<Rightarrow> 'w traced run_state \<Rightarrow> bool" where
  "grows D j w rs rs' \<longleftrightarrow> (\<exists>new. snd (rs_w rs') = snd (rs_w rs) @ new \<and> list_all (run_call D j w) new \<and>
     fenced j w new \<and> (rs_lost rs' \<longleftrightarrow> rs_lost rs \<or> list_ex denied new))"

lemma grows_refl: "snd (rs_w rs') = snd (rs_w rs) \<Longrightarrow> rs_lost rs' = rs_lost rs \<Longrightarrow> grows D j w rs rs'"
  by (simp add: grows_def)

lemma grows_trans: "grows D j w a b \<Longrightarrow> grows D j w b c \<Longrightarrow> grows D j w a c"
  unfolding grows_def by (fastforce intro: fenced_append)

lemma grows_one:
  assumes "snd (rs_w rs') = snd (rs_w rs) @ new" and "list_all (run_call D j w) new"
    and "\<not> list_ex is_agent new" and "rs_lost rs' \<longleftrightarrow> rs_lost rs \<or> list_ex denied new"
  shows "grows D j w rs rs'"
  using assms fenced_no_agent unfolding grows_def by blast

lemma spy_selectors [simp]:
  "sv_Store (spy_service sv) = spy_store (sv_Store sv)" "sv_Queue (spy_service sv) = spy_queue (sv_Queue sv)"
  "sv_Agents (spy_service sv) = sv_Agents sv" "sv_Options (spy_service sv) = sv_Options sv"
  "sv_Config (spy_service sv) = sv_Config sv"
  by (simp_all add: spy_service_def)

lemma observe_grows: "grows D j w rs (observe env rs)"
  by (rule grows_refl) (simp_all add: observe_def)

lemma tick_grows: "grows D j w rs (holdLease_tick (spy_service sv) j w rs)"
proof -
  let ?l = "Config_lease (sv_Config sv)"
  obtain r1 w1 where 1: "st_ExtendLease (spy_store (sv_Store sv)) j w ?l (rs_w rs) = (r1, w1)" by (rule prod.exhaust)
  then have t1: "snd w1 = snd (rs_w rs) @ [TExtendLease j w r1]"
    by (auto simp: spy_store_def elim: spyE)
  obtain r2 w2 where 2: "qu_Extend (spy_queue (sv_Queue sv)) j w ?l w1 = (r2, w2)" by (rule prod.exhaust)
  then have t2: "snd w2 = snd w1 @ [TExtend j w r2]" by (auto simp: spy_queue_def elim: spyE)
  show ?thesis
    using 1 2 t1 t2
    by (cases r1; cases r2)
      (auto simp: holdLease_tick_def Let_def
        intro: grows_one [of _ _ "[TExtendLease j w r1]"] grows_one [of _ _ "[TExtendLease j w r1, TExtend j w r2]"])
qed

lemma holdLease_grows: "grows D j w rs (holdLease env (spy_service sv) j w n rs)"
proof (induction n arbitrary: rs)
  case 0
  then show ?case by (simp add: observe_grows)
next
  case (Suc n)
  let ?rs = "observe env rs"
  have "grows D j w rs (?rs\<lparr>rs_holding := False\<rparr>)"
    by (rule grows_trans [OF observe_grows]) (rule grows_refl; simp)
  moreover have "grows D j w rs (holdLease env (spy_service sv) j w n (holdLease_tick (spy_service sv) j w ?rs))"
    by (rule grows_trans [OF grows_trans [OF observe_grows tick_grows] Suc])
  ultimately show ?case by (simp add: Let_def)
qed

lemma yield_grows: "grows D j w rs (yield_run (spy_env env) (spy_service sv) j w rs)"
proof -
  obtain n w1 where b: "en_beats (spy_env env) (rs_w rs) = (n, w1)" by (rule prod.exhaust)
  then have "snd w1 = snd (rs_w rs)" using unseen_trace [of "en_beats env" "rs_w rs"] by (simp add: spy_env_def)
  then have "grows D j w rs (rs\<lparr>rs_w := w1\<rparr>)" by (intro grows_refl) simp_all
  from grows_trans [OF this holdLease_grows] b show ?thesis by (simp add: yield_run_def)
qed

lemma fencedAgent_grows:
  assumes "fa_jobID a = j" and "fa_owner a = w" and "fa_stepID a \<notin> D"
  shows "grows D j w rs (snd (fencedAgent_Run (spy_env env) (spy_service sv) a p rs))"
proof -
  obtain r1 w1 where 1: "st_ClaimStep (spy_store (sv_Store sv)) j (fa_stepID a) w (rs_w rs) = (r1, w1)" by (rule prod.exhaust)
  then have t1: "snd w1 = snd (rs_w rs) @ [TClaimStep j (fa_stepID a) w r1]"
    by (auto simp: spy_store_def elim: spyE)
  obtain r2 w2 where 2: "en_run (spy_env env) (fa_inner a) p w1 = (r2, w2)" by (rule prod.exhaust)
  then have t2: "snd w2 = snd w1 @ [TAgent p]" by (auto simp: spy_env_def elim: spyE)
  show ?thesis
  proof (cases r1)
    case (Inl e)
    with 1 t1 assms show ?thesis
      by (auto simp: fencedAgent_Run_def intro!: grows_one [of _ _ "[TClaimStep j (fa_stepID a) w r1]"])
  next
    case (Inr claimed)
    have "fenced j w [TClaimStep j (fa_stepID a) w (Inr True), TAgent p]" by (simp add: fenced_def)
    moreover have "list_all (run_call D j w) [TClaimStep j (fa_stepID a) w (Inr True), TAgent p]" using assms(3) by simp
    ultimately have yes: "grows D j w rs (rs\<lparr>rs_w := w2\<rparr>)" if "r1 = Inr True"
      using t1 t2 that unfolding grows_def
      by (intro exI [of _ "[TClaimStep j (fa_stepID a) w (Inr True), TAgent p]"]) simp
    show ?thesis
    proof (cases claimed)
      case True
      with yes Inr 1 2 assms show ?thesis by (simp add: fencedAgent_Run_def)
    next
      case False
      with Inr 1 t1 assms show ?thesis
        by (auto simp: fencedAgent_Run_def intro!: grows_one [of _ _ "[TClaimStep j (fa_stepID a) w r1]"])
    qed
  qed
qed

lemma sleep_grows: "grows D j w rs (snd (run_sleep (spy_env env) (spy_service sv) j w d rs))"
proof -
  obtain fired w1 where t: "en_timer (spy_env env) d (rs_w rs) = (fired, w1)" by (rule prod.exhaust)
  then have "snd w1 = snd (rs_w rs)" using unseen_trace [of "en_timer env d" "rs_w rs"] by (simp add: spy_env_def)
  then have "grows D j w rs (rs\<lparr>rs_w := w1\<rparr>)" by (intro grows_refl) simp_all
  from grows_trans [OF this yield_grows [of D j w _ env sv]] t show ?thesis
    by (simp add: run_sleep_def Let_def split: option.splits prod.splits)
qed

lemma append_trace: "snd (snd (st_AppendEvent (spy_store st) j ty p wt)) = snd wt @ [TAppend j ty p]"
  by (simp add: spy_store_def spy_trace)

lemma update_trace: "snd (snd (st_UpdateStep (spy_store st) j w res wt)) = snd wt @ [TUpdateStep j w res]"
  by (simp add: spy_store_def spy_trace)

lemma record_grows: "grows D j w rs (record_step (spy_env env) (spy_service sv) j w res rs)"
proof -
  let ?rs = "yield_run (spy_env env) (spy_service sv) j w rs"
  have "grows D j w ?rs (record_step (spy_env env) (spy_service sv) j w res rs)"
    by (rule grows_one [of _ _ "[TUpdateStep j w res, TAppend j EventStepCompleted (StepOutcome res)]"])
      (simp_all add: record_step_def Let_def split_beta append_trace update_trace)
  with yield_grows show ?thesis by (rule grows_trans)
qed

end
