(* ===== verification/Service_Properties.thy ===== *)
theory Service_Properties
  imports Service_Trace
begin

text \<open>
  What processing one delivery does, for every store, every queue, every agent and every
  interleaving: the protocol of its calls, the fence in front of agents, and the rule that a
  lost lease never fails a job.
\<close>

section \<open>The calls of runJob\<close>

lemma fence_steps_agent:
  "s \<in> set (fence_steps j w wsteps) \<Longrightarrow> step_Agent s = Some a \<Longrightarrow>
   fa_jobID a = j \<and> fa_owner a = w \<and> fa_stepID a = step_ID s"
  by (auto simp: fence_steps_def)

lemma job_run_grows:
  assumes "NewWorkflow ord (fence_steps j w wsteps) opts = Inr plan"
    and D: "\<And>sid. resumed (Resume opts) sid = None \<Longrightarrow> sid \<notin> D"
    and run: "Run (job_runtime (spy_env env) (spy_service sv) j w) plan rs = (out, rs')"
  shows "grows D j w rs rs'"
proof -
  have plan: "wf_steps plan = fence_steps j w wsteps" "wf_options plan = opts" and dist: "distinct (map step_ID (wf_steps plan))"
    using assms(1) by (simp_all add: NewWorkflow_accepts valid_steps_def closed_graph_def)
  show ?thesis
  proof (rule Run_world [OF run dist, of "grows D j w rs"])
    show "grows D j w rs rs" by (rule grows_refl) simp_all
  next
    fix s p rs1 assume s: "s \<in> set (wf_steps plan)"
      and new: "resumed (Resume (wf_options plan)) (step_ID s) = None" and rs1: "grows D j w rs rs1"
    show "grows D j w rs (snd (rt_call (job_runtime (spy_env env) (spy_service sv) j w) (step_Agent s) p rs1))"
    proof (cases "step_Agent s")
      case None
      with rs1 show ?thesis by (simp add: job_runtime_def)
    next
      case (Some a)
      with s plan fence_steps_agent [of s j w wsteps a] D [of "step_ID s"] new
      have "fa_jobID a = j" "fa_owner a = w" "fa_stepID a \<notin> D" by simp_all
      from grows_trans [OF grows_trans [OF rs1 yield_grows] fencedAgent_grows [OF this]] Some
      show ?thesis by (simp add: job_runtime_def)
    qed
  next
    fix d rs1 assume "grows D j w rs rs1"
    then show "grows D j w rs (snd (rt_sleep (job_runtime (spy_env env) (spy_service sv) j w) d rs1))"
      by (simp add: job_runtime_def grows_trans [OF _ sleep_grows])
  next
    fix r rs1 assume "grows D j w rs rs1"
    then show "grows D j w rs (rt_notify (job_runtime (spy_env env) (spy_service sv) j w) r rs1)"
      by (simp add: job_runtime_def grows_trans [OF _ record_grows])
  qed
qed

lemma resumed_grows:
  "grows D j w rs (rs\<lparr>rs_w := snd (st_AppendEvent (spy_store st) j EventResumed p (rs_w rs))\<rparr>)"
  by (rule grows_one [of _ _ "[TAppend j EventResumed p]"]) (simp_all add: append_trace)

lemma holdLease_lost: "rs_lost (holdLease env sv j w n rs) = rs_lost rs"
proof (induction n arbitrary: rs)
  case (Suc n)
  have tick: "rs_lost (holdLease_tick sv j w rs') = rs_lost rs'" for rs'
    by (simp add: holdLease_tick_def Let_def split: prod.splits sum.splits)
  show ?case by (simp add: Let_def Suc tick observe_def)
qed (simp add: observe_def)

lemma yield_lost: "rs_lost (yield_run env sv j w rs) = rs_lost rs"
  by (simp add: yield_run_def split_beta holdLease_lost)

lemma announce_grows: "grows D j w rs (announce_resume (spy_env env) (spy_service sv) w j resume rs)"
  unfolding announce_resume_def Let_def spy_selectors
  using grows_trans [OF yield_grows resumed_grows] grows_refl [OF refl refl] by (cases "resume = []") auto

lemma announce_lost: "rs_lost (announce_resume env sv w j resume rs) = rs_lost rs"
  by (simp add: announce_resume_def Let_def yield_lost)

text \<open>
  The result of a run: its calls, and that it blames the infrastructure whenever a step claim
  was refused.
\<close>

definition blames :: "step_result list \<times> gerror option \<times> gerror option \<Rightarrow> 'w run_state \<Rightarrow> bool" where
  "blames res rs \<longleftrightarrow> (case res of (results, jobErr, infraErr) \<Rightarrow>
     (infraErr = None \<longrightarrow> \<not> rs_lost rs) \<and> (infraErr \<noteq> None \<longrightarrow> jobErr = None))"

lemma run_steps_spec:
  assumes run: "run_steps (spy_env env) (spy_service sv) w j wsteps resume rs = (res, rs')" and "\<not> rs_lost rs"
    and D: "\<And>sid. resumed resume sid = None \<Longrightarrow> sid \<notin> D"
  shows "grows D j w rs rs' \<and> blames res rs'"
proof -
  let ?env = "spy_env env" and ?sv = "spy_service sv"
  let ?rs1 = "announce_resume ?env ?sv w j resume rs"
  show ?thesis
  proof (cases "NewWorkflow (en_range ?env) (fence_steps j w wsteps) ((sv_Options sv)\<lparr>Resume := resume\<rparr>)")
    case (Inl e)
    with run have "res = ([], Some (graph_gerror e), None)" "rs' = ?rs1" by (auto simp: run_steps_def Let_def)
    then show ?thesis using announce_grows [of D j w rs] assms(2) by (simp add: blames_def announce_lost)
  next
    case (Inr plan)
    obtain results runErr rs2 where r: "Run (job_runtime ?env ?sv j w) plan ?rs1 = ((results, runErr), rs2)"
      by (metis prod.exhaust)
    let ?rs3 = "yield_run ?env ?sv j w rs2"
    from run Inr r have out: "res = run_outcome ?rs3 results runErr" "rs' = ?rs3"
      by (auto simp: run_steps_def Let_def)
    have "grows D j w rs rs'"
      unfolding out(2) by (rule grows_trans [OF grows_trans [OF announce_grows job_run_grows [OF Inr _ r]] yield_grows])
        (simp add: D)
    moreover have "blames res rs'"
      unfolding out blames_def run_outcome_def by (auto split: option.splits)
    ultimately show ?thesis ..
  qed
qed

text \<open>The steps a loaded job records as succeeded.\<close>

definition succeeded_in :: "gerror + job option \<Rightarrow> string set" where
  "succeeded_in loaded = (case loaded of
     Inr (Some job) \<Rightarrow> {result_ID r |r. r \<in> set (job_Results job) \<and> result_Status r = Succeeded} | _ \<Rightarrow> {})"

lemma resumed_resumable:
  "resumed (resumable job) sid = None \<Longrightarrow> sid \<notin> succeeded_in (Inr (Some job))"
  by (auto simp: resumed_def resumable_def succeeded_in_def find_None_iff)

text \<open>
  The calls between the claim of a job and its conclusion: ticks of the heartbeat, the load of
  the job, and the run, which claims no step the loaded job records as succeeded.
\<close>

definition run_calls :: "string \<Rightarrow> string \<Rightarrow> call list \<Rightarrow> bool" where
  "run_calls j w run \<longleftrightarrow> (\<exists>beats loaded calls. run = beats @ TGet j loaded # calls \<and> fenced j w run \<and>
     list_all (run_call UNIV j w) beats \<and> list_all (run_call (succeeded_in loaded) j w) calls)"

lemma runJob_spec:
  assumes run: "runJob (spy_env env) (spy_service sv) w j rs = (res, rs')" and "\<not> rs_lost rs"
  shows "\<exists>calls. snd (rs_w rs') = snd (rs_w rs) @ calls \<and> run_calls j w calls \<and>
    (rs_lost rs' \<longleftrightarrow> list_ex denied calls) \<and> blames res rs'"
proof -
  let ?env = "spy_env env" and ?sv = "spy_service sv"
  let ?rs0 = "yield_run ?env ?sv j w rs"
  obtain r w1 where get: "st_Get (spy_store (sv_Store sv)) j (rs_w ?rs0) = (r, w1)" by (rule prod.exhaust)
  let ?rs1 = "?rs0\<lparr>rs_w := w1\<rparr>"
  have t1: "snd w1 = snd (rs_w ?rs0) @ [TGet j r]" using get by (auto simp: spy_store_def elim: spyE)
  have l1: "\<not> rs_lost ?rs1" using assms(2) by (simp add: yield_lost)
  obtain beats where beats: "snd (rs_w ?rs0) = snd (rs_w rs) @ beats" "list_all (run_call UNIV j w) beats"
    "fenced j w beats" "\<not> list_ex denied beats"
    using yield_grows [of UNIV j w rs env sv] assms(2) yield_lost [of ?env ?sv j w rs] by (auto simp: grows_def)
  have "grows (succeeded_in r) j w ?rs1 rs' \<and> blames res rs'"
  proof -
    consider (early) "rs' = ?rs1" "blames res rs'"
      | (steps) job wsteps where "r = Inr (Some job)" "run_steps ?env ?sv w j wsteps (resumable job) ?rs1 = (res, rs')"
      using run get l1 by (auto simp: runJob_def Let_def blames_def split: sum.splits option.splits)
    then show ?thesis
    proof cases
      case early
      then show ?thesis using grows_refl [OF refl refl] by auto
    next
      case steps
      from run_steps_spec [OF steps(2) l1 resumed_resumable] steps(1) show ?thesis by blast
    qed
  qed
  then obtain calls where calls: "snd (rs_w rs') = snd (rs_w ?rs1) @ calls" "list_all (run_call (succeeded_in r) j w) calls"
    "fenced j w calls" "rs_lost rs' \<longleftrightarrow> list_ex denied calls" and "blames res rs'"
    using l1 by (auto simp: grows_def)
  moreover have "fenced j w (beats @ [TGet j r] @ calls)"
    using beats(3) calls(3) by (intro fenced_append) (simp_all add: fenced_no_agent)
  ultimately show ?thesis
    using beats t1 unfolding run_calls_def by (intro exI [of _ "beats @ TGet j r # calls"]) auto
qed

section \<open>The protocol of a delivery\<close>

text \<open>
  How the calls of a delivery end, by the return statement it leaves by. \<open>n\<close> is the attempt
  number of the claim.
\<close>

fun concluded :: "string \<Rightarrow> string \<Rightarrow> int \<Rightarrow> outcome \<Rightarrow> call list \<Rightarrow> bool" where
  "concluded j w n (Abandoned cause) ts =
     (if errors_is cause ErrLeaseLost then ts = [TAppend j EventAbandoned (AbandonedBy w (error_text cause))]
      else \<exists>r. ts = [TAppend j EventAbandoned (AbandonedBy w (error_text cause)), TReleaseJob j w r] @
             (case r of Inl e \<Rightarrow> [] | Inr u \<Rightarrow> [TRequeue j]))"
| "concluded j w n FinishFailed ts =
     (\<exists>results st msg e. st \<in> {Succeeded, Failed} \<and>
        ts = map (TUpdateStep j w) results @ [TFinishJob j w st msg (Inl e)])"
| "concluded j w n Superseded ts =
     (\<exists>results st msg. st \<in> {Succeeded, Failed} \<and>
        ts = map (TUpdateStep j w) results @ [TFinishJob j w st msg (Inr False)])"
| "concluded j w n (Completed st) ts =
     (\<exists>results msg. st \<in> {Succeeded, Failed} \<and>
        ts = map (TUpdateStep j w) results @
          [TFinishJob j w st msg (Inr True), TAppend j EventCompleted (FinishedJob st results w n), TAck j])"
| "concluded j w n _ ts = False"

text \<open>
  The whole trace. A delivery starts with a claim of the job. A claim that fails ends it; a
  refused claim is acknowledged as a duplicate; a job over its limit of attempts is failed and
  acknowledged; everything else runs and is concluded.
\<close>

fun protocol :: "int \<Rightarrow> int \<Rightarrow> string \<Rightarrow> string \<Rightarrow> outcome \<Rightarrow> call list \<Rightarrow> bool" where
  "protocol lease limit j w ClaimFailed tr = (\<exists>e. tr = [TClaimJob j w lease (Inl e)])"
| "protocol lease limit j w DuplicateDelivery tr = (\<exists>n. tr = [TClaimJob j w lease (Inr (n, False)), TAck j])"
| "protocol lease limit j w DeadLettered tr =
     (\<exists>n r. 0 < limit \<and> limit < n \<and>
        tr = [TClaimJob j w lease (Inr (n, True)),
              TFinishJob j w Failed (''exceeded '' @ itoa limit @ '' delivery attempt(s)'') r,
              TAppend j EventDeadLettered (DeadLetter n limit w), TAck j])"
| "protocol lease limit j w out tr =
     (\<exists>n run ts. (0 < limit \<longrightarrow> n \<le> limit) \<and>
        tr = TClaimJob j w lease (Inr (n, True)) # TAppend j EventRunning (RunningJob Running w n) # run @ ts \<and>
        run_calls j w run \<and> (list_ex denied run \<longrightarrow> (\<exists>cause. out = Abandoned cause)) \<and> concluded j w n out ts)"

lemma persist_trace:
  "snd (persist_results (spy_service sv) j w results wt) = snd wt @ map (TUpdateStep j w) results"
proof (induction results arbitrary: wt)
  case (Cons r results)
  from Cons [of "snd (st_UpdateStep (spy_store (sv_Store sv)) j w r wt)"] show ?case
    by (simp add: persist_results_def update_trace)
qed (simp add: persist_results_def)

lemma abandon_trace:
  "\<exists>ts. snd (abandon (spy_service sv) w j cause wt) = snd wt @ ts \<and> concluded j w n (Abandoned cause) ts"
proof (cases "errors_is cause ErrLeaseLost")
  case True
  then show ?thesis by (simp add: abandon_def Let_def split_beta append_trace)
next
  case False
  let ?w1 = "snd (st_AppendEvent (spy_store (sv_Store sv)) j EventAbandoned (AbandonedBy w (error_text cause)) wt)"
  obtain r w2 where rel: "st_ReleaseJob (spy_store (sv_Store sv)) j w ?w1 = (r, w2)" by (rule prod.exhaust)
  then have t2: "snd w2 = snd ?w1 @ [TReleaseJob j w r]" by (auto simp: spy_store_def elim: spyE)
  have t3: "snd (snd (qu_Requeue (spy_queue (sv_Queue sv)) j w2)) = snd w2 @ [TRequeue j]"
    by (simp add: spy_queue_def spy_trace)
  show ?thesis
  proof (cases r)
    case (Inl e)
    have "snd (abandon (spy_service sv) w j cause wt) =
        snd wt @ [TAppend j EventAbandoned (AbandonedBy w (error_text cause)), TReleaseJob j w (Inl e)]"
      using False rel t2 Inl by (simp add: abandon_def Let_def split_beta append_trace)
    with False show ?thesis by (intro exI conjI) (assumption, auto intro: exI [of _ "Inl e"])
  next
    case (Inr u)
    have "snd (abandon (spy_service sv) w j cause wt) =
        snd wt @ [TAppend j EventAbandoned (AbandonedBy w (error_text cause)), TReleaseJob j w (Inr u), TRequeue j]"
      using False rel t2 t3 Inr by (simp add: abandon_def Let_def split_beta append_trace)
    with False show ?thesis by (intro exI conjI) (assumption, auto intro: exI [of _ "Inr u"])
  qed
qed

lemma conclude_trace:
  assumes "conclude (spy_service sv) w j n res wt = (out, wt')"
  shows "\<exists>ts. snd wt' = snd wt @ ts \<and> concluded j w n out ts \<and>
    (case res of (_, _, Some cause) \<Rightarrow> out = Abandoned cause | _ \<Rightarrow> out \<in> {FinishFailed, Superseded} \<union> range Completed)"
proof -
  obtain results jobErr infraErr where res: "res = (results, jobErr, infraErr)" by (rule prod_cases3)
  show ?thesis
  proof (cases infraErr)
    case (Some cause)
    with assms res show ?thesis using abandon_trace [of sv w j cause wt n] by (auto simp: conclude_def)
  next
    case None
    define st where "st = (case jobErr of None \<Rightarrow> Succeeded | Some _ \<Rightarrow> Failed)"
    define msg where "msg = (case jobErr of None \<Rightarrow> [] | Some e \<Rightarrow> error_text e)"
    have st: "st = Succeeded \<or> st = Failed" by (simp add: st_def split: option.splits)
    let ?w1 = "persist_results (spy_service sv) j w results wt"
    obtain held w2 where f: "st_FinishJob (spy_store (sv_Store sv)) j w st msg ?w1 = (held, w2)"
      by (rule prod.exhaust)
    then have t2: "snd w2 = snd wt @ map (TUpdateStep j w) results @ [TFinishJob j w st msg held]"
      using persist_trace [of sv j w results wt] by (auto simp: spy_store_def elim: spyE)
    let ?ev = "FinishedJob st results w n"
    let ?w3 = "ack (spy_service sv) j (snd (st_AppendEvent (spy_store (sv_Store sv)) j EventCompleted ?ev w2))"
    have t3: "snd ?w3 = snd wt @ map (TUpdateStep j w) results @
        [TFinishJob j w st msg held, TAppend j EventCompleted ?ev, TAck j]"
      by (simp add: ack_def spy_queue_def spy_trace append_trace t2)
    consider (error) e where "held = Inl e" "out = FinishFailed" "wt' = w2"
      | (lost) "held = Inr False" "out = Superseded" "wt' = w2"
      | (held) "held = Inr True" "out = Completed st" "wt' = ?w3"
      using assms res None f
      by (cases held) (auto simp: conclude_def st_def msg_def Let_def split: if_splits)
    then show ?thesis
      by cases (use t2 t3 st res None in auto)
  qed
qed

lemma execute_protocol:
  assumes "execute (spy_env env) (spy_service sv) w j n wt = (out, wt')"
    and "snd wt = [TClaimJob j w lease (Inr (n, True))]" and "0 < limit \<Longrightarrow> n \<le> limit"
  shows "protocol lease limit j w out (snd wt')"
proof -
  let ?w1 = "snd (st_AppendEvent (spy_store (sv_Store sv)) j EventRunning (RunningJob Running w n) wt)"
  let ?rs = "start_run (spy_env env) ?w1"
  obtain res rs' where run: "runJob (spy_env env) (spy_service sv) w j ?rs = (res, rs')" by (rule prod.exhaust)
  have rs: "snd (rs_w ?rs) = snd ?w1" "\<not> rs_lost ?rs" by (simp_all add: start_run_def observe_def)
  from runJob_spec [OF run rs(2)] obtain calls where
    calls: "snd (rs_w rs') = snd (rs_w ?rs) @ calls" "run_calls j w calls"
      "rs_lost rs' \<longleftrightarrow> list_ex denied calls" and blames: "blames res rs'" by blast
  have "conclude (spy_service sv) w j n res (rs_w rs') = (out, wt')"
    using assms(1) run by (simp add: execute_def Let_def)
  from conclude_trace [OF this] obtain ts where ts: "snd wt' = snd (rs_w rs') @ ts" "concluded j w n out ts"
    and out: "case res of (_, _, Some cause) \<Rightarrow> out = Abandoned cause
      | _ \<Rightarrow> out \<in> {FinishFailed, Superseded} \<union> range Completed" by blast
  have "snd wt' = TClaimJob j w lease (Inr (n, True)) # TAppend j EventRunning (RunningJob Running w n) # calls @ ts"
    using ts(1) calls(1) rs(1) assms(2) by (simp add: append_trace)
  moreover have "list_ex denied calls \<longrightarrow> (\<exists>cause. out = Abandoned cause)"
    using blames out calls(3) by (auto simp: blames_def split: option.splits prod.splits)
  ultimately have "\<exists>m run ts. (0 < limit \<longrightarrow> m \<le> limit) \<and> snd wt' = TClaimJob j w lease (Inr (m, True)) #
      TAppend j EventRunning (RunningJob Running w m) # run @ ts \<and> run_calls j w run \<and>
      (list_ex denied run \<longrightarrow> (\<exists>cause. out = Abandoned cause)) \<and> concluded j w m out ts"
    using calls(2) ts(2) assms(3) by blast
  moreover have "out \<notin> {ClaimFailed, DuplicateDelivery, DeadLettered}"
    using out by (auto split: option.splits prod.splits)
  ultimately show ?thesis by (cases out) simp_all
qed


end
