(* ===== verification/Jobs_Backend.thy ===== *)
theory Jobs_Backend
  imports Jobs_Interfaces Redis_Scripts
begin

text \<open>
  The methods of \<open>Queue\<close> (\<^verbatim>\<open>internal/jobs/queue.go\<close>) and \<open>Store\<close> (\<^verbatim>\<open>internal/jobs/store.go\<close>) on a
  backend that is shared: one Redis queue and one database, which every process of the
  cluster reads and writes. A call of this process takes one turn. A turn says what the other
  processes did to the shared state since the last call, what the clocks read, and what the
  network does to the call: a call is executed and answered, refused, or executed with the
  answer lost. All turns are arguments, so a fact about a method holds for every interleaving
  with other processes and every failure.
\<close>

section \<open>Turns\<close>

text \<open>
  \<open>Delivered\<close>: executed and answered. \<open>Refused e\<close>: not executed, the error \<open>e\<close>. \<open>ReplyLost e\<close>:
  executed, but the client sees the error \<open>e\<close>.
\<close>

datatype net = Delivered | Refused gerror | ReplyLost gerror

record turn =
  tn_peers :: "redis \<times> db \<Rightarrow> redis \<times> db"
  tn_clock :: int
  tn_db_clock :: int
  tn_locked :: "string \<Rightarrow> bool"
  tn_net :: net

record 'e backend =
  bk_redis :: redis
  bk_db :: db
  bk_turns :: "nat \<Rightarrow> turn"
  bk_calls :: nat
  bk_env :: 'e

fun deliver :: "net \<Rightarrow> ('s \<Rightarrow> 'r \<times> 's) \<Rightarrow> 's \<Rightarrow> (gerror + 'r) \<times> 's" where
  "deliver Delivered f s = (case f s of (r, s') \<Rightarrow> (Inr r, s'))"
| "deliver (Refused e) f s = (Inl e, s)"
| "deliver (ReplyLost e) f s = (Inl e, snd (f s))"

definition next_turn :: "'e backend \<Rightarrow> turn \<times> 'e backend" where
  "next_turn b =
     (let t = bk_turns b (bk_calls b); (q, d) = tn_peers t (bk_redis b, bk_db b)
      in (t, b\<lparr>bk_redis := q, bk_db := d, bk_calls := Suc (bk_calls b)\<rparr>))"

definition redis_call :: "(int \<Rightarrow> redis \<Rightarrow> 'r \<times> redis) \<Rightarrow> 'e backend \<Rightarrow> (gerror + 'r) \<times> 'e backend" where
  "redis_call f b =
     (let (t, b1) = next_turn b; (r, q) = deliver (tn_net t) (f (tn_clock t)) (bk_redis b1)
      in (r, b1\<lparr>bk_redis := q\<rparr>))"

definition db_call ::
  "((string \<Rightarrow> bool) \<Rightarrow> int \<Rightarrow> db \<Rightarrow> 'r \<times> db) \<Rightarrow> 'e backend \<Rightarrow> (gerror + 'r) \<times> 'e backend" where
  "db_call f b =
     (let (t, b1) = next_turn b; (r, d) = deliver (tn_net t) (f (tn_locked t) (tn_db_clock t)) (bk_db b1)
      in (r, b1\<lparr>bk_db := d\<rparr>))"

text \<open>A statement that can itself fail, like an insert.\<close>

definition flatten :: "(gerror + (gerror + 'r)) \<Rightarrow> gerror + 'r" where
  "flatten r = (case r of Inl e \<Rightarrow> Inl e | Inr (Inl e) \<Rightarrow> Inl e | Inr (Inr v) \<Rightarrow> Inr v)"

text \<open>Applying a function to the answer of a call.\<close>

definition map_answer :: "('r \<Rightarrow> 's) \<Rightarrow> (gerror + 'r) \<times> 'w \<Rightarrow> (gerror + 's) \<times> 'w" where
  "map_answer f a = (case a of (Inl e, w) \<Rightarrow> (Inl e, w) | (Inr r, w) \<Rightarrow> (Inr (f r), w))"

section \<open>Durations\<close>

text \<open>
  \<open>time.Time.UnixMilli\<close> rounds down; \<open>Duration.Milliseconds\<close> truncates towards zero.
\<close>

definition UnixMilli :: "int \<Rightarrow> int" where
  "UnixMilli ns = ns div 1000000"

definition Milliseconds :: "int \<Rightarrow> int" where
  "Milliseconds d = (if d < 0 then - (- d div 1000000) else d div 1000000)"

section \<open>Queue\<close>

text \<open>
  The keys of a queue. \<open>parse\<close> and \<open>ping\<close> are \<open>redis.ParseURL\<close> and the \<open>PING\<close> of a new client.
\<close>

record queue_keys =
  key_ready :: string
  key_leases :: string
  key_owners :: string
  key_notify :: string
  waitTimeout :: int

definition defaultQueueName :: string where
  "defaultQueueName = ''anchora:jobs''"

definition NewQueue ::
  "(string \<Rightarrow> gerror + 'opts) \<Rightarrow> ('opts \<Rightarrow> gerror option) \<Rightarrow> string \<Rightarrow> string \<Rightarrow> gerror + queue_keys" where
  "NewQueue parse ping redisURL name =
     (case parse redisURL of
        Inl e \<Rightarrow> Inl (Wrapf (''parse Redis URL: '' @ error_text e) e)
      | Inr opts \<Rightarrow>
          (let name = (if name = [] then defaultQueueName else name)
           in case ping opts of
                Some e \<Rightarrow> Inl (Wrapf (''connect Redis: '' @ error_text e) e)
              | None \<Rightarrow> Inr \<lparr>key_ready = name, key_leases = name @ '':leases'', key_owners = name @ '':owners'',
                             key_notify = name @ '':notify'', waitTimeout = second\<rparr>))"

definition Queue_Push :: "string \<Rightarrow> ('e backend, unit) op" where
  "Queue_Push j = redis_call (\<lambda>_ q. ((), pushScript j q))"

definition Queue_Claim :: "string \<Rightarrow> int \<Rightarrow> ('e backend, string) op" where
  "Queue_Claim owner lease b =
     (case redis_call (\<lambda>now. claimScript (UnixMilli (now + lease)) owner) b of
        (Inl e, b1) \<Rightarrow> (Inl e, b1)
      | (Inr (Some j), b1) \<Rightarrow> (Inr j, b1)
      | (Inr None, b1) \<Rightarrow>
          (case redis_call (\<lambda>_. brpop) b1 of
             (Inl e, b2) \<Rightarrow> (Inl e, b2)
           | (Inr _, b2) \<Rightarrow> (Inr [], b2)))"

definition Queue_Extend :: "string \<Rightarrow> string \<Rightarrow> int \<Rightarrow> ('e backend, bool) op" where
  "Queue_Extend j owner lease b =
     map_answer (\<lambda>held. held = 1) (redis_call (\<lambda>now. extendScript j (UnixMilli (now + lease)) owner) b)"

definition Queue_Ack :: "string \<Rightarrow> ('e backend, unit) op" where
  "Queue_Ack j = redis_call (\<lambda>_ q. ((), ackScript j q))"

definition Queue_Requeue :: "string \<Rightarrow> ('e backend, unit) op" where
  "Queue_Requeue j = redis_call (\<lambda>_ q. ((), requeueScript j q))"

definition Queue_Reclaim :: "int \<Rightarrow> ('e backend, string list) op" where
  "Queue_Reclaim limit =
     (let limit = (if limit \<le> 0 then defaultReclaimBatch else limit)
      in redis_call (\<lambda>now. reclaimScript (UnixMilli now) limit))"

definition Queue_Depth :: "('e backend, int \<times> int) op" where
  "Queue_Depth b =
     (case redis_call (\<lambda>_ q. (int (length (q_ready q)), q)) b of
        (Inl e, b1) \<Rightarrow> (Inl e, b1)
      | (Inr ready, b1) \<Rightarrow>
          (case redis_call (\<lambda>_ q. (int (length (q_leases q)), q)) b1 of
             (Inl e, b2) \<Rightarrow> (Inl e, b2)
           | (Inr inFlight, b2) \<Rightarrow> (Inr (ready, inFlight), b2)))"

definition redis_queue :: "'e backend job_queue" where
  "redis_queue =
     \<lparr>qu_Push = Queue_Push, qu_Claim = Queue_Claim, qu_Extend = Queue_Extend, qu_Ack = Queue_Ack,
      qu_Requeue = Queue_Requeue, qu_Reclaim = Queue_Reclaim, qu_Depth = Queue_Depth\<rparr>"

section \<open>Store\<close>

text \<open>\<open>connect\<close>, \<open>ping\<close> and \<open>migrate\<close> are the pool, its \<open>Ping\<close> and the execution of the schema.\<close>

definition NewStore ::
  "(string \<Rightarrow> gerror + 'pool) \<Rightarrow> ('pool \<Rightarrow> gerror option) \<Rightarrow> ('pool \<Rightarrow> gerror option) \<Rightarrow> string
   \<Rightarrow> gerror + 'pool" where
  "NewStore connect ping migrate databaseURL =
     (case connect databaseURL of
        Inl e \<Rightarrow> Inl (Wrapf (''connect PostgreSQL: '' @ error_text e) e)
      | Inr pool \<Rightarrow>
          (case ping pool of
             Some e \<Rightarrow> Inl (Wrapf (''ping PostgreSQL: '' @ error_text e) e)
           | None \<Rightarrow>
               (case migrate pool of
                  Some e \<Rightarrow> Inl (Wrapf (''migrate PostgreSQL: '' @ error_text e) e)
                | None \<Rightarrow> Inr pool)))"

text \<open>
  The transaction of \<open>Create\<close> is one call: it is rolled back on every error before the commit,
  and an answer can be lost at the commit.
\<close>

definition Store_Create :: "job \<Rightarrow> ('e backend, unit) op" where
  "Store_Create job b =
     (case db_call (\<lambda>_ _ d. case create_job job d of Inl e \<Rightarrow> (Inl e, d) | Inr d' \<Rightarrow> (Inr (), d')) b of
        (r, b1) \<Rightarrow> (flatten r, b1))"

definition Store_Get :: "string \<Rightarrow> ('e backend, job option) op" where
  "Store_Get j b =
     (case db_call (\<lambda>_ _ d. (select_job j d, d)) b of
        (Inl e, b1) \<Rightarrow> (Inl e, b1)
      | (Inr None, b1) \<Rightarrow> (Inr None, b1)
      | (Inr (Some row), b1) \<Rightarrow>
          map_answer (\<lambda>rows. Some (load_job j row rows)) (db_call (\<lambda>_ _ d. (select_steps j d, d)) b1))"

definition Store_ClaimJob :: "string \<Rightarrow> string \<Rightarrow> int \<Rightarrow> ('e backend, int \<times> bool) op" where
  "Store_ClaimJob j owner lease b =
     map_answer (\<lambda>r. case r of None \<Rightarrow> (0, False) | Some attempts \<Rightarrow> (attempts, True))
       (db_call (\<lambda>_ now. claim_job j owner (Milliseconds lease) now) b)"

definition Store_ExtendLease :: "string \<Rightarrow> string \<Rightarrow> int \<Rightarrow> ('e backend, bool) op" where
  "Store_ExtendLease j owner lease b =
     map_answer (\<lambda>n. n = 1) (db_call (\<lambda>_ now. extend_job j owner (Milliseconds lease) now) b)"

definition Store_FinishJob :: "string \<Rightarrow> string \<Rightarrow> status \<Rightarrow> string \<Rightarrow> ('e backend, bool) op" where
  "Store_FinishJob j owner st err b =
     map_answer (\<lambda>n. n = 1) (db_call (\<lambda>_ now. finish_job j owner st err now) b)"

definition Store_ReleaseJob :: "string \<Rightarrow> string \<Rightarrow> ('e backend, unit) op" where
  "Store_ReleaseJob j owner = db_call (\<lambda>_ now d. ((), release_job j owner now d))"

definition Store_ReclaimExpiredJobs :: "int \<Rightarrow> int \<Rightarrow> ('e backend, string list) op" where
  "Store_ReclaimExpiredJobs grace limit =
     (let limit = (if limit \<le> 0 then defaultReclaimBatch else limit)
      in db_call (\<lambda>locked now. reclaim_jobs (Milliseconds grace) limit locked now))"

definition Store_ClaimStep :: "string \<Rightarrow> string \<Rightarrow> string \<Rightarrow> ('e backend, bool) op" where
  "Store_ClaimStep j s owner b = map_answer (\<lambda>n. n = 1) (db_call (\<lambda>_ now. claim_step j s owner now) b)"

definition Store_UpdateStep :: "string \<Rightarrow> string \<Rightarrow> step_result \<Rightarrow> ('e backend, unit) op" where
  "Store_UpdateStep j owner res = db_call (\<lambda>_ now d. ((), update_step j owner res now d))"

definition Store_AppendEvent :: "string \<Rightarrow> string \<Rightarrow> payload \<Rightarrow> ('e backend, unit) op" where
  "Store_AppendEvent j ty data b =
     (case db_call (\<lambda>_ now. append_event j ty data now) b of (r, b1) \<Rightarrow> (flatten r, b1))"

definition Store_Events :: "string \<Rightarrow> int \<Rightarrow> ('e backend, event list) op" where
  "Store_Events j after b =
     map_answer (map (\<lambda>e. \<lparr>ev_ID = e_id e, ev_Type = e_type e, ev_Data = e_data e,
                           ev_CreatedAt = e_created_at e * 1000\<rparr>))
       (db_call (\<lambda>_ _ d. (select_events j after d, d)) b)"

definition Store_RegisterWorker :: "worker_info \<Rightarrow> ('e backend, unit) op" where
  "Store_RegisterWorker w =
     db_call (\<lambda>_ now d. ((), register_worker (wi_ID w) (wi_Hostname w) (wi_PID w) (wi_Queue w) now d))"

definition Store_HeartbeatWorker :: "string \<Rightarrow> int \<Rightarrow> ('e backend, unit) op" where
  "Store_HeartbeatWorker w claimed = db_call (\<lambda>_ now d. ((), heartbeat_worker w claimed now d))"

definition Store_UnregisterWorker :: "string \<Rightarrow> ('e backend, unit) op" where
  "Store_UnregisterWorker w = db_call (\<lambda>_ _ d. ((), unregister_worker w d))"

definition Store_PruneWorkers :: "int \<Rightarrow> ('e backend, int) op" where
  "Store_PruneWorkers ttl = db_call (\<lambda>_ now. prune_workers (Milliseconds ttl) now)"

definition Store_Workers :: "int \<Rightarrow> ('e backend, worker_info list) op" where
  "Store_Workers ttl b =
     map_answer (map (\<lambda>r. \<lparr>wi_ID = wk_id r, wi_Hostname = wk_hostname r, wi_PID = wk_pid r, wi_Queue = wk_queue r,
                           wi_StartedAt = wk_started_at r * 1000, wi_LastBeatAt = wk_last_heartbeat_at r * 1000,
                           wi_JobsClaimed = wk_jobs_claimed r\<rparr>))
       (db_call (\<lambda>_ now d. (select_workers (Milliseconds ttl) now d, d)) b)"

definition pg_store :: "'e backend job_store" where
  "pg_store =
     \<lparr>st_Create = Store_Create, st_Get = Store_Get, st_ClaimJob = Store_ClaimJob,
      st_ExtendLease = Store_ExtendLease, st_FinishJob = Store_FinishJob, st_ReleaseJob = Store_ReleaseJob,
      st_ReclaimExpiredJobs = Store_ReclaimExpiredJobs, st_ClaimStep = Store_ClaimStep,
      st_UpdateStep = Store_UpdateStep, st_AppendEvent = Store_AppendEvent, st_Events = Store_Events,
      st_RegisterWorker = Store_RegisterWorker, st_HeartbeatWorker = Store_HeartbeatWorker,
      st_UnregisterWorker = Store_UnregisterWorker, st_PruneWorkers = Store_PruneWorkers,
      st_Workers = Store_Workers\<rparr>"

end
