(* ===== verification/Jobs_Properties.thy ===== *)
theory Jobs_Properties
  imports Service_Properties Jobs_Backend Store_Records Redis_Properties Workflow_Properties
begin

text \<open>
  The service on its own backend: \<open>pg_store\<close> and \<open>redis_queue\<close> behind the interfaces. What a
  submission leaves behind, what the reaper recovers, and what a duplicate delivery does.
\<close>

section \<open>Calls on the backend\<close>

text \<open>A backend whose turns bring no change by other processes.\<close>

definition undisturbed :: "'e backend \<Rightarrow> bool" where
  "undisturbed b \<longleftrightarrow> (\<forall>n. tn_peers (bk_turns b n) = (\<lambda>s. s))"

definition reliable :: "'e backend \<Rightarrow> bool" where
  "reliable b \<longleftrightarrow> (\<forall>n. tn_net (bk_turns b n) = Delivered)"

lemma redis_call_turns [simp]:
  "bk_turns (snd (redis_call f b)) = bk_turns b" "bk_env (snd (redis_call f b)) = bk_env b"
  by (simp_all add: redis_call_def next_turn_def Let_def split_beta)

lemma db_call_turns [simp]:
  "bk_turns (snd (db_call g b)) = bk_turns b" "bk_env (snd (db_call g b)) = bk_env b"
  by (simp_all add: db_call_def next_turn_def Let_def split_beta)

lemma redis_call_undisturbed:
  assumes "undisturbed b" and "redis_call f b = (r, b')"
  shows "bk_db b' = bk_db b \<and> bk_turns b' = bk_turns b \<and>
    (r, bk_redis b') = deliver (tn_net (bk_turns b (bk_calls b))) (f (tn_clock (bk_turns b (bk_calls b)))) (bk_redis b)"
  using assms by (auto simp: redis_call_def next_turn_def undisturbed_def Let_def split_beta)

lemma db_call_undisturbed:
  assumes "undisturbed b" and "db_call g b = (r, b')"
  shows "bk_redis b' = bk_redis b \<and> bk_turns b' = bk_turns b \<and>
    (r, bk_db b') = deliver (tn_net (bk_turns b (bk_calls b)))
      (g (tn_locked (bk_turns b (bk_calls b))) (tn_db_clock (bk_turns b (bk_calls b)))) (bk_db b)"
  using assms by (auto simp: db_call_def next_turn_def undisturbed_def Let_def split_beta)

lemma deliver_Inr: "(Inr v, s') = deliver net f s \<longleftrightarrow> net = Delivered \<and> f s = (v, s')"
  by (cases net) (auto split: prod.splits)

lemma undisturbed_next: "undisturbed b \<Longrightarrow> bk_turns b' = bk_turns b \<Longrightarrow> undisturbed b'"
  by (simp add: undisturbed_def)

lemma reliable_next: "reliable b \<Longrightarrow> bk_turns b' = bk_turns b \<Longrightarrow> reliable b'"
  by (simp add: reliable_def)

text \<open>A statement or script that runs for sure.\<close>

lemma redis_call_runs:
  assumes "undisturbed b" and "reliable b"
  shows "\<exists>now b'. redis_call f b = (Inr (fst (f now (bk_redis b))), b') \<and> bk_redis b' = snd (f now (bk_redis b)) \<and>
    bk_db b' = bk_db b \<and> bk_turns b' = bk_turns b"
  using assms by (auto simp: redis_call_def next_turn_def undisturbed_def reliable_def Let_def split_beta)

lemma db_call_runs:
  assumes "undisturbed b" and "reliable b"
  shows "\<exists>n b'. db_call g b = (Inr (fst (g (tn_locked (bk_turns b n)) (tn_db_clock (bk_turns b n)) (bk_db b))), b') \<and>
    bk_db b' = snd (g (tn_locked (bk_turns b n)) (tn_db_clock (bk_turns b n)) (bk_db b)) \<and>
    bk_redis b' = bk_redis b \<and> bk_turns b' = bk_turns b"
  using assms by (auto simp: db_call_def next_turn_def undisturbed_def reliable_def Let_def split_beta)

section \<open>Submitted workflows stay runnable\<close>

lemma fence_steps_IDs: "map step_ID (fence_steps j w ss) = map step_ID ss"
  by (simp add: fence_steps_def comp_def)

lemma fence_steps_ids: "step_ids (fence_steps j w ss) = step_ids ss"
  using arg_cong [OF fence_steps_IDs [of j w ss], of set] by (simp add: step_ids_def)

lemma dep_edges_Union: "dep_edges ss = (\<Union>s\<in>set ss. (\<lambda>d. (d, step_ID s)) ` set (step_DependsOn s))"
  by (force simp: dep_edges_def)

lemma fence_steps_edges: "dep_edges (fence_steps j w ss) = dep_edges ss"
  by (simp add: dep_edges_Union fence_steps_def)

text \<open>
  A workflow that was accepted when it was submitted is accepted again by every delivery.
  Putting the fence in front of its agents and adding the results to resume from changes
  nothing \<open>NewWorkflow\<close> checks, so \<open>runJob\<close> never fails a submitted job for its shape.
\<close>

lemma accepted_workflow_stays_accepted:
  assumes "NewWorkflow ord ss opts = Inr plan"
  shows "NewWorkflow ord' (fence_steps j w ss) (opts\<lparr>Resume := resume\<rparr>) =
    Inr \<lparr>wf_steps = fence_steps j w ss, wf_options = opts\<lparr>Resume := resume\<rparr>\<rparr>"
proof -
  have valid: "valid_steps ss" and "0 \<le> MaxRetries opts" "0 \<le> RetryDelay opts"
    using assms by (simp_all add: NewWorkflow_accepts)
  moreover have "valid_steps (fence_steps j w ss)"
    using valid
    by (simp add: valid_steps_def closed_graph_def fence_steps_IDs fence_steps_ids fence_steps_edges)
      (auto simp: fence_steps_def)
  ultimately show ?thesis by (simp add: NewWorkflow_accepts)
qed

section \<open>The error of a failed workflow\<close>

lemma collect_error:
  "collect ss R ordered err = (ordered', Some e) \<Longrightarrow> (err \<noteq> None \<Longrightarrow> \<exists>m. we_Err (the err) = Errorf m) \<Longrightarrow>
   \<exists>m. we_Err e = Errorf m"
proof (induction ss R ordered err rule: collect.induct)
  case (2 s ss R ordered err)
  show ?case
    by (rule "2.IH" [OF refl]) (use "2.prems" in \<open>auto simp: Let_def split: if_splits\<close>)
qed auto

text \<open>
  The error of a failed run matches no sentinel. \<open>WorkflowError\<close> wraps an error made anew
  from the text of the step's result, so \<open>errors.Is\<close> finds neither \<open>ErrLeaseLost\<close> nor any other
  sentinel in it, whatever the step failed with; a lost lease is seen through the fence only.
\<close>

lemma workflow_error_matches_no_sentinel:
  assumes "Run rt plan w = ((ordered, Some e), w')"
  shows "\<not> errors_is (workflow_gerror e) (Sentinel name)"
proof -
  obtain R where "collect (wf_steps plan) R [] None = (ordered, Some e)"
    using assms by (auto simp: Run_def Let_def split: prod.splits)
  from collect_error [OF this] obtain m where "we_Err e = Errorf m" by auto
  then show ?thesis by (simp add: workflow_gerror_def)
qed

section \<open>Submission\<close>

text \<open>The clock and the random source do not touch the backend.\<close>

definition inert :: "('a, 'e backend) env \<Rightarrow> bool" where
  "inert env \<longleftrightarrow> (\<forall>b. snd (en_now env b) = b) \<and> (\<forall>b. snd (en_rand env b) = b)"

lemma NewID_inert: "inert env \<Longrightarrow> snd (NewID env b) = b"
  by (auto simp: NewID_def inert_def split: prod.splits sum.splits) (metis snd_conv)+

lemma new_job_id: "job_ID (new_job j now ss) = j"
  by (simp add: new_job_def)

lemma appended:
  "append_event j ty p now d = (Inr (), d') \<Longrightarrow> \<exists>e. db_events d' = db_events d @ [e] \<and> e_job_id e = j \<and> e_type e = ty \<and>
     e_id e = next_event d"
  by (auto simp: append_event_def Let_def split: if_splits)

text \<open>What an answered call did.\<close>

lemma flatten_Inr: "flatten r = Inr v \<longleftrightarrow> r = Inr (Inr v)"
  by (simp add: flatten_def split: sum.splits)

lemma Store_Create_answered:
  assumes "undisturbed b" and "Store_Create job b = (Inr (), b')"
  shows "create_job job (bk_db b) = Inr (bk_db b') \<and> bk_redis b' = bk_redis b \<and> undisturbed b'"
proof -
  have c: "db_call (\<lambda>_ _ d. case create_job job d of Inl e \<Rightarrow> (Inl e, d) | Inr d' \<Rightarrow> (Inr (), d')) b = (Inr (Inr ()), b')"
    using assms(2) by (auto simp: Store_Create_def flatten_Inr split: prod.splits)
  from db_call_undisturbed [OF assms(1) c] assms(1) show ?thesis
    by (auto simp: deliver_Inr undisturbed_next split: sum.splits)
qed

lemma Store_AppendEvent_answered:
  assumes "undisturbed b" and "Store_AppendEvent j ty p b = (Inr (), b')"
  shows "\<exists>t. append_event j ty p t (bk_db b) = (Inr (), bk_db b') \<and> bk_redis b' = bk_redis b \<and> undisturbed b'"
proof -
  have c: "db_call (\<lambda>_ now. append_event j ty p now) b = (Inr (Inr ()), b')"
    using assms(2) by (auto simp: Store_AppendEvent_def flatten_Inr split: prod.splits)
  from db_call_undisturbed [OF assms(1) c] assms(1) show ?thesis by (auto simp: deliver_Inr undisturbed_next)
qed

lemma Queue_Push_answered:
  assumes "undisturbed b" and "Queue_Push j b = (Inr (), b')"
  shows "bk_db b' = bk_db b \<and> bk_redis b' = pushScript j (bk_redis b)"
  using redis_call_undisturbed [OF assms [unfolded Queue_Push_def]] by (simp add: deliver_Inr)

lemma resolveSteps_IDs: "resolveSteps agents ss = Inr wsteps \<Longrightarrow> map step_ID wsteps = map js_ID ss"
proof (induction ss arbitrary: wsteps)
  case (Cons s ss)
  then show ?case by (auto split: option.splits sum.splits)
qed simp

lemma Submit_answered:
  assumes "inert env" and "sv_Store sv = pg_store" and "sv_Queue sv = redis_queue"
    and submit: "Submit env sv ss b = (Inr job, b')"
  obtains j now b1 b2 where "distinct (map js_ID ss)" "job = new_job j now ss"
    "Store_Create job b = (Inr (), b1)" "Store_AppendEvent j EventQueued (QueuedJob job) b1 = (Inr (), b2)"
    "Queue_Push j b2 = (Inr (), b')"
proof -
  obtain wsteps plan where res: "resolveSteps (sv_Agents sv) ss = Inr wsteps"
    and plan: "NewWorkflow (en_range env) wsteps (sv_Options sv) = Inr plan"
    using submit by (auto simp: Submit_def split: sum.splits)
  obtain j where id: "NewID env b = (Inr j, b)"
    using submit res plan NewID_inert [OF assms(1), of b]
    by (cases "NewID env b") (auto simp: Submit_def split: sum.splits)
  obtain now where now: "en_now env b = (now, b)" using assms(1) by (metis inert_def prod.collapse)
  have "distinct (map js_ID ss)"
    using plan resolveSteps_IDs [OF res] by (simp add: NewWorkflow_accepts valid_steps_def closed_graph_def)
  moreover obtain b1 b2 where "Store_Create (new_job j now ss) b = (Inr (), b1)"
    "Store_AppendEvent j EventQueued (QueuedJob (new_job j now ss)) b1 = (Inr (), b2)"
    "Queue_Push j b2 = (Inr (), b')" "job = new_job j now ss"
    using submit res plan id now assms(2,3)
    by (auto simp: Submit_def Let_def pg_store_def redis_queue_def split: prod.splits sum.splits)
  ultimately show thesis using that by blast
qed

text \<open>The first event of a job that did not exist before.\<close>

lemma first_event:
  assumes "store_ok d" and "select_job j d = None" and same: "db_events d1 = db_events d" "next_event d1 = next_event d"
    and append: "append_event j ty p t d1 = (Inr (), d2)"
  shows "\<exists>e. select_events j 0 d2 = [e] \<and> e_type e = ty"
proof -
  obtain e where "db_events d2 = db_events d1 @ [e]" "e_job_id e = j" "e_type e = ty" "e_id e = next_event d1"
    using appended [OF append] by blast
  moreover have "filter (\<lambda>e. e_job_id e = j \<and> 0 < e_id e) (db_events d) = []"
    using assms(1,2) by (auto simp: store_ok_def events_ok_def filter_empty_conv select_job_None)
  moreover have "0 < next_event d" using assms(1) by (simp add: store_ok_def)
  ultimately show ?thesis by (simp add: select_events_def same)
qed


definition calm_turn :: turn where
  "calm_turn = \<lparr>tn_peers = (\<lambda>s. s), tn_clock = 7000000000, tn_db_clock = 7000000, tn_locked = (\<lambda>_. False),
     tn_net = Delivered\<rparr>"

definition calm_backend :: "redis \<Rightarrow> db \<Rightarrow> unit backend" where
  "calm_backend q d = \<lparr>bk_redis = q, bk_db = d, bk_turns = (\<lambda>_. calm_turn), bk_calls = 0, bk_env = ()\<rparr>"

definition calm_env :: "(bool, unit backend) env" where
  "calm_env = \<lparr>en_run = (\<lambda>a p w. (if a then Inr ''ok'' else Inl (Errorf ''no''), w)), en_timer = (\<lambda>d w. (True, w)),
     en_done = (\<lambda>w. None), en_beats = (\<lambda>w. (0, w)), en_now = (\<lambda>w. (7000000000, w)),
     en_rand = (\<lambda>w. (Inr (replicate 16 CHR ''A''), w)), en_range = (\<lambda>ks. ks), en_arrival = (\<lambda>ks. ks)\<rparr>"

definition calm_config :: config where
  "calm_config = \<lparr>Lease = 0, Heartbeat = 0, MaxAttempts = 3, ReaperInterval = 0, WorkerTTL = 0, ReclaimBatch = 0,
     QueueName = ''q''\<rparr>"

definition calm_service :: "(bool, unit backend) service" where
  "calm_service = \<lparr>sv_Store = pg_store, sv_Queue = redis_queue, sv_Agents = (\<lambda>a. if a = ''a'' then Some True else None),
     sv_Options = \<lparr>MaxRetries = 1, RetryDelay = 0, Resume = []\<rparr>, sv_Config = calm_config\<rparr>"

lemma calm_facts:
  "undisturbed (calm_backend q d)" "reliable (calm_backend q d)" "inert calm_env"
  "sv_Store calm_service = pg_store" "sv_Queue calm_service = redis_queue"
  "bk_db (calm_backend q d) = d" "bk_redis (calm_backend q d) = q"
  by (simp_all add: undisturbed_def reliable_def calm_backend_def calm_turn_def inert_def calm_env_def calm_service_def)

lemma demo_select: "select_job ''j'' demo_db = Some demo_row"
  by (simp add: demo_db_eq select_job_def demo_row_def)

lemma length_filter_mono: "(\<And>x. P x \<Longrightarrow> Q x) \<Longrightarrow> length (filter P xs) \<le> length (filter Q xs)"
  by (induction xs) (auto intro: le_SucI)

lemma empty_db_ok: "store_ok empty_db"
  by (simp add: store_ok_def empty_db_def jobs_ok_def steps_ok_def events_ok_def)

lemma calm_submit:
  "fst (Submit calm_env calm_service (job_Steps demo_job) (calm_backend empty_queue empty_db)) =
   Inr (new_job (concat (replicate 16 ''41'')) 7000000000 (job_Steps demo_job))"
  by code_simp


section \<open>Duplicate deliveries\<close>

text \<open>The three parts of a duplicate delivery: it is popped, refused and acknowledged, and noticed.\<close>

lemma duplicate_popped:
  assumes "undisturbed b" "reliable b" and dup: "q_ready (bk_redis b) = rest @ [j]"
    and claim: "Queue_Claim w l b = (got, b1)"
  shows "got = Inr j \<and> q_ready (bk_redis b1) = rest \<and> bk_db b1 = bk_db b \<and> bk_turns b1 = bk_turns b"
proof -
  have "claimScript d w (bk_redis b) = (Some j, (bk_redis b)\<lparr>q_ready := rest,
      q_leases := ZADD d j (q_leases (bk_redis b)), q_owners := (q_owners (bk_redis b))(j \<mapsto> w)\<rparr>)" for d
    using dup by (simp add: claimScript_def RPOP_def)
  with redis_call_runs [OF assms(1,2), of "\<lambda>now. claimScript (UnixMilli (now + l)) w"] claim
  show ?thesis by (auto simp: Queue_Claim_def)
qed

lemma live_job_refused:
  assumes calm: "undisturbed b" "reliable b" and "store_ok (bk_db b)"
    and backend: "sv_Store sv = pg_store" "sv_Queue sv = redis_queue"
    and live: "select_job j (bk_db b) = Some r" "j_owner r = Some v" "j_lease_expires_at r = Some t"
      "\<forall>n. tn_db_clock (bk_turns b n) < t" and "w \<noteq> v"
    and proc: "process env sv w j b = (out, b2)"
  shows "out = DuplicateDelivery \<and> select_job j (bk_db b2) = Some r \<and> bk_redis b2 = ackScript j (bk_redis b) \<and>
    bk_turns b2 = bk_turns b"
proof -
  let ?l = "Config_lease (sv_Config sv)"
  obtain n b1 where r1: "db_call (\<lambda>_ now. claim_job j w (Milliseconds ?l) now) b =
      (Inr (fst (claim_job j w (Milliseconds ?l) (tn_db_clock (bk_turns b n)) (bk_db b))), b1)"
    "bk_db b1 = snd (claim_job j w (Milliseconds ?l) (tn_db_clock (bk_turns b n)) (bk_db b))"
    "bk_redis b1 = bk_redis b" "bk_turns b1 = bk_turns b"
    using db_call_runs [OF calm, of "\<lambda>_ now. claim_job j w (Milliseconds ?l) now"] by blast
  let ?now = "tn_db_clock (bk_turns b n)"
  have "?now < t" using live(4) by simp
  then have no: "\<not> claimable j w ?now r" using live(2,3) \<open>w \<noteq> v\<close> by (simp add: claimable_def)
  then have "fst (claim_job j w (Milliseconds ?l) ?now (bk_db b)) = None"
    using live(1) assms(3) by (simp add: claim_answer)
  then have "Store_ClaimJob j w ?l b = (Inr (0, False), b1)" by (simp add: Store_ClaimJob_def r1(1) map_answer_def)
  then have out: "out = DuplicateDelivery" and b2: "b2 = ack sv j b1"
    using proc by (simp_all add: process_def backend pg_store_def)
  have "undisturbed b1" "reliable b1" using calm r1(4) undisturbed_next reliable_next by blast+
  from redis_call_runs [OF this, of "\<lambda>_ q. ((), ackScript j q)"] b2
  have "bk_redis b2 = ackScript j (bk_redis b1)" "bk_db b2 = bk_db b1" "bk_turns b2 = bk_turns b1"
    by (auto simp: ack_def backend redis_queue_def Queue_Ack_def)
  with out live(1) no r1 show ?thesis by (simp add: select_claim)
qed

lemma lost_queue_lease_cancels:
  assumes calm: "undisturbed b" "reliable b" and backend: "sv_Store sv = pg_store" "sv_Queue sv = redis_queue"
    and gone: "q_owners (bk_redis b) j = None"
  shows "rs_ctx (holdLease_tick sv j v \<lparr>rs_lost = False, rs_ctx = None, rs_holding = True, rs_w = b\<rparr>) =
    Some (Canceled, ErrLeaseLost)"
proof -
  let ?l = "Config_lease (sv_Config sv)"
  obtain n b1 where r1: "db_call (\<lambda>_ now. extend_job j v (Milliseconds ?l) now) b =
      (Inr (fst (extend_job j v (Milliseconds ?l) (tn_db_clock (bk_turns b n)) (bk_db b))), b1)"
    "bk_redis b1 = bk_redis b" "bk_turns b1 = bk_turns b"
    using db_call_runs [OF calm, of "\<lambda>_ now. extend_job j v (Milliseconds ?l) now"] by blast
  have calm1: "undisturbed b1" "reliable b1" using calm r1(3) undisturbed_next reliable_next by blast+
  obtain now b2 where r2: "redis_call (\<lambda>now. extendScript j (UnixMilli (now + ?l)) v) b1 =
      (Inr (fst (extendScript j (UnixMilli (now + ?l)) v (bk_redis b1))), b2)"
    using redis_call_runs [OF calm1, of "\<lambda>now. extendScript j (UnixMilli (now + ?l)) v"] by blast
  have "fst (extendScript j (UnixMilli (now + ?l)) v (bk_redis b1)) = 0"
    using gone by (simp add: extendScript_def r1(2))
  with r1(1) r2 show ?thesis
    by (simp add: holdLease_tick_def Let_def backend pg_store_def redis_queue_def Store_ExtendLease_def
        Queue_Extend_def map_answer_def)
qed

text \<open>
  C38: a duplicate delivery is not harmless. When the ID of a job that a live worker is running
  is delivered a second time, the second worker takes over the queue lease, is refused by the
  store, and acknowledges: the store row is untouched, but the queue lease of the running
  worker is gone, so its next heartbeat cancels the run as a lost lease, and the job is in
  the queue no more.
\<close>

theorem duplicate_delivery_ends_live_run:
  assumes calm: "undisturbed b" "reliable b" and "store_ok (bk_db b)"
    and backend: "sv_Store sv = pg_store" "sv_Queue sv = redis_queue"
    and live: "select_job j (bk_db b) = Some r" "j_owner r = Some v" "j_lease_expires_at r = Some t"
      "\<forall>n. tn_db_clock (bk_turns b n) < t" and "w \<noteq> v"
    and dup: "q_ready (bk_redis b) = rest @ [j]" "j \<notin> set rest"
    and claim: "Queue_Claim w (Config_lease (sv_Config sv)) b = (got, b1)"
    and proc: "process env sv w j b1 = (out, b2)"
  shows "got = Inr j \<and> out = DuplicateDelivery \<and> select_job j (bk_db b2) = Some r \<and>
    j \<notin> in_queue (bk_redis b2) \<and>
    rs_ctx (holdLease_tick sv j v \<lparr>rs_lost = False, rs_ctx = None, rs_holding = True, rs_w = b2\<rparr>) =
      Some (Canceled, ErrLeaseLost)"
proof -
  note popped = duplicate_popped [OF calm dup(1) claim]
  have calm1: "undisturbed b1" "reliable b1" using calm popped undisturbed_next reliable_next by blast+
  have refused: "out = DuplicateDelivery \<and> select_job j (bk_db b2) = Some r \<and>
      bk_redis b2 = ackScript j (bk_redis b1) \<and> bk_turns b2 = bk_turns b1"
    by (rule live_job_refused [OF calm1 _ backend _ live(2,3) _ \<open>w \<noteq> v\<close> proc]) (use popped assms(3) live in simp_all)
  then have calm2: "undisturbed b2" "reliable b2" using calm1 undisturbed_next reliable_next by blast+
  have "q_owners (bk_redis b2) j = None" using refused by (simp add: ackScript_def)
  from lost_queue_lease_cancels [OF calm2 backend this] popped refused dup(2)
  show ?thesis by (auto simp: ackScript_def in_queue_map ZREM_def)
qed

theorem duplicate_delivery_ends_live_run_witness:
  "let d = store_step (6000000, SqlExtend ''j'' ''w'' 30000) demo_db;
       q = \<lparr>q_ready = [''j''], q_leases = [(''j'', 36000)], q_owners = [''j'' \<mapsto> ''w''], q_notify = []\<rparr>;
       b1 = snd (Queue_Claim ''v'' (Config_lease calm_config) (calm_backend q d))
   in fst (process calm_env calm_service ''v'' ''j'' b1) = DuplicateDelivery"
proof -
  let ?d = "store_step (6000000, SqlExtend ''j'' ''w'' 30000) demo_db"
  let ?q = "\<lparr>q_ready = [''j''], q_leases = [(''j'', 36000)], q_owners = [''j'' \<mapsto> ''w''], q_notify = []\<rparr>"
  let ?r = "demo_row\<lparr>j_lease_expires_at := Some 36000000, j_updated_at := 6000000\<rparr>"
  let ?b1 = "snd (Queue_Claim ''v'' (Config_lease calm_config) (calm_backend ?q ?d))"
  have ok: "store_ok ?d" by (rule store_ok_step [OF demo_db_ok]) simp
  have row: "select_job ''j'' ?d = Some ?r"
    by (simp add: select_extend demo_select) (simp add: demo_row_def owned_running_def interval_ms_def)
  have config: "sv_Config calm_service = calm_config" by (simp add: calm_service_def)
  have clock: "\<forall>n. tn_db_clock (bk_turns (calm_backend ?q ?d) n) < 36000000"
    by (simp add: calm_backend_def calm_turn_def)
  have "fst (process calm_env calm_service ''v'' ''j'' ?b1) = DuplicateDelivery"
    using duplicate_delivery_ends_live_run [OF calm_facts(1,2) _ calm_facts(4,5), of ?q ?d "''j''" ?r "''w''" 36000000 "''v''"
        "[]" "fst (Queue_Claim ''v'' (Config_lease calm_config) (calm_backend ?q ?d))" ?b1 calm_env
        "fst (process calm_env calm_service ''v'' ''j'' ?b1)" "snd (process calm_env calm_service ''v'' ''j'' ?b1)"]
      ok row clock by (simp add: calm_facts config demo_row_def)
  then show ?thesis by (simp add: Let_def)
qed

section \<open>The reaper\<close>

text \<open>What bookkeeping leaves alone: the turns, the queue and the table of jobs.\<close>

definition same_jobs :: "'e backend \<Rightarrow> 'e backend \<Rightarrow> bool" where
  "same_jobs b b' \<longleftrightarrow> bk_turns b' = bk_turns b \<and> db_jobs (bk_db b') = db_jobs (bk_db b)"

lemma same_jobs_trans: "same_jobs a b \<Longrightarrow> same_jobs b c \<Longrightarrow> same_jobs a c"
  by (simp add: same_jobs_def)

lemma append_same:
  assumes "undisturbed b"
  shows "same_jobs b (snd (Store_AppendEvent j ty p b)) \<and> bk_redis (snd (Store_AppendEvent j ty p b)) = bk_redis b"
proof -
  obtain r b' where c: "db_call (\<lambda>_ now. append_event j ty p now) b = (r, b')" by fastforce
  have "db_jobs (snd (deliver net (append_event j ty p now) d)) = db_jobs d" for net now d
    by (cases net) (simp_all add: split_beta)
  with db_call_undisturbed [OF assms c] have "db_jobs (bk_db b') = db_jobs (bk_db b)" by (metis snd_conv)
  with db_call_undisturbed [OF assms c] c show ?thesis by (simp add: Store_AppendEvent_def same_jobs_def)
qed

lemma append_all_same:
  "undisturbed b \<Longrightarrow> sv_Store sv = pg_store \<Longrightarrow>
   same_jobs b (fold (\<lambda>j w. snd (st_AppendEvent (sv_Store sv) j ty p w)) js b)"
proof (induction js arbitrary: b)
  case Nil
  then show ?case by (simp add: same_jobs_def)
next
  case (Cons j js)
  let ?b = "snd (Store_AppendEvent j ty p b)"
  have same: "same_jobs b ?b" using append_same [OF Cons.prems(1)] by blast
  then have "undisturbed ?b" using Cons.prems(1) undisturbed_next by (auto simp: same_jobs_def)
  from same_jobs_trans [OF same Cons.IH [OF this Cons.prems(2)]] Cons.prems(2)
  show ?case by (simp add: pg_store_def)
qed

lemma reenqueue_effect:
  assumes calm: "undisturbed b" "reliable b" and backend: "sv_Store sv = pg_store" "sv_Queue sv = redis_queue"
  shows "same_jobs b (reenqueue sv j b) \<and> in_queue (bk_redis (reenqueue sv j b)) = insert j (in_queue (bk_redis b))"
proof -
  obtain b1 where b1: "redis_call (\<lambda>_ q. ((), pushScript j q)) b = (Inr (), b1)" "bk_redis b1 = pushScript j (bk_redis b)"
    "bk_db b1 = bk_db b" "bk_turns b1 = bk_turns b"
    using redis_call_runs [OF calm, of "\<lambda>_ q. ((), pushScript j q)"] by auto
  have u1: "undisturbed b1" using calm(1) b1(4) undisturbed_next by blast
  have "reenqueue sv j b = snd (Store_AppendEvent j EventReclaimed (Reason ''store lease expired'') b1)"
    using b1(1) by (simp add: reenqueue_def backend redis_queue_def Queue_Push_def pg_store_def)
  moreover have "in_queue (pushScript j q) = insert j (in_queue q)" for q
    using in_queue_step [of "CallPush j" q] by simp
  ultimately show ?thesis
    using append_same [OF u1, of j EventReclaimed "Reason ''store lease expired''"] b1 by (simp add: same_jobs_def)
qed

lemma reenqueue_all:
  "undisturbed b \<Longrightarrow> reliable b \<Longrightarrow> sv_Store sv = pg_store \<Longrightarrow> sv_Queue sv = redis_queue \<Longrightarrow>
   same_jobs b (fold (reenqueue sv) js b) \<and>
   in_queue (bk_redis (fold (reenqueue sv) js b)) = set js \<union> in_queue (bk_redis b)"
proof (induction js arbitrary: b)
  case Nil
  then show ?case by (simp add: same_jobs_def)
next
  case (Cons j js)
  let ?b = "reenqueue sv j b"
  have one: "same_jobs b ?b" "in_queue (bk_redis ?b) = insert j (in_queue (bk_redis b))"
    using reenqueue_effect [OF Cons.prems, of j] by simp_all
  then have "undisturbed ?b" "reliable ?b"
    using Cons.prems(1,2) undisturbed_next reliable_next by (auto simp: same_jobs_def)
  from Cons.IH [OF this Cons.prems(3,4)] one same_jobs_trans [OF one(1)] show ?case by auto
qed

lemma reap_queue_same:
  assumes calm: "undisturbed b" and backend: "sv_Store sv = pg_store" "sv_Queue sv = redis_queue"
  shows "same_jobs b (reap_queue sv b)"
proof -
  let ?l = "Config_reclaimBatch (sv_Config sv)"
  obtain r b1 where c: "Queue_Reclaim ?l b = (r, b1)" by fastforce
  then have same: "same_jobs b b1"
    using redis_call_undisturbed [OF calm] by (auto simp: Queue_Reclaim_def Let_def same_jobs_def)
  then have u1: "undisturbed b1" using calm undisturbed_next by (auto simp: same_jobs_def)
  from c same same_jobs_trans [OF same append_all_same [OF u1 backend(1)]] show ?thesis
    by (auto simp: reap_queue_def backend redis_queue_def split: sum.splits)
qed

text \<open>An expired job that no transaction holds is in the batch when the batch has room for all.\<close>

lemma expired_in_batch:
  assumes "select_job j d = Some r" "j_status r = Running" "j_lease_expires_at r = Some t" "t + ms * 1000 \<le> now"
    and "\<not> locked j" and room: "int (length (filter (\<lambda>r. j_status r = Running) (db_jobs d))) \<le> limit"
  shows "j \<in> set (expired_ids ms limit locked now d)"
proof -
  let ?due = "filter (\<lambda>r. expired ms now r \<and> \<not> locked (j_id r)) (db_jobs d)"
  have r: "r \<in> set (db_jobs d)" "j_id r = j" using select_jobD [OF assms(1)] by auto
  then have "r \<in> set ?due" using assms(2-5) by (simp add: expired_def interval_ms_def le_diff_eq)
  moreover have "length ?due \<le> length (filter (\<lambda>r. j_status r = Running) (db_jobs d))"
    by (rule length_filter_mono) (simp add: expired_def)
  then have "length ?due \<le> nat limit" using room by linarith
  ultimately show ?thesis using r(2) by (auto simp: expired_ids_def)
qed

lemma prune_same:
  assumes "undisturbed b"
  shows "same_jobs b (snd (db_call (\<lambda>_ now. prune_workers ms now) b)) \<and>
    bk_redis (snd (db_call (\<lambda>_ now. prune_workers ms now) b)) = bk_redis b"
proof -
  obtain x b' where c: "db_call (\<lambda>_ now. prune_workers ms now) b = (x, b')" by fastforce
  have "db_jobs (snd (deliver net (prune_workers ms now) d)) = db_jobs d" for net now d
    by (cases net) (simp_all add: split_beta)
  with db_call_undisturbed [OF assms c] have "db_jobs (bk_db b') = db_jobs (bk_db b)" by (metis snd_conv)
  with db_call_undisturbed [OF assms c] c show ?thesis by (simp add: same_jobs_def)
qed



end
