(* ===== verification/App_Config.thy ===== *)
theory App_Config
  imports Jobs_Interfaces
begin

text \<open>
  The configuration file (\<^verbatim>\<open>internal/config/config.go\<close>): the settings with their defaults,
  their validation, and the durations derived from them, as 64-bit products. The YAML decoder
  is a parameter of \<open>Load\<close>; \<open>getenv\<close> is the environment of the process.
\<close>

section \<open>Settings\<close>

record server_config =
  Address :: string

record workflow_config =
  wc_MaxRetries :: int
  RetryDelayMS :: int

record async_config =
  Enabled :: bool
  DatabaseURLEnv :: string
  RedisURLEnv :: string
  ac_QueueName :: string
  ac_Workers :: int
  LeaseMS :: int
  HeartbeatMS :: int
  ac_MaxAttempts :: int
  ReaperIntervalMS :: int
  WorkerTTLMS :: int
  ac_ReclaimBatch :: int
  Reaper :: "bool option"

record agent_config =
  ModelID :: string
  BaseURL :: string
  TokenEnv :: string
  Instruction :: string
  MaxTokens :: int
  TimeoutMS :: int

record app_config =
  cf_Server :: server_config
  cf_Workflow :: workflow_config
  cf_Async :: async_config
  cf_Agents :: "(string \<times> agent_config) list"

definition defaultAddress :: string where "defaultAddress = '':8080''"
definition defaultDatabaseURLEnv :: string where "defaultDatabaseURLEnv = ''DATABASE_URL''"
definition defaultRedisURLEnv :: string where "defaultRedisURLEnv = ''REDIS_URL''"

section \<open>Accessors\<close>

definition databaseEnv :: "async_config \<Rightarrow> string" where
  "databaseEnv a = (if DatabaseURLEnv a = [] then defaultDatabaseURLEnv else DatabaseURLEnv a)"

definition redisEnv :: "async_config \<Rightarrow> string" where
  "redisEnv a = (if RedisURLEnv a = [] then defaultRedisURLEnv else RedisURLEnv a)"

definition DatabaseURL :: "(string \<Rightarrow> string) \<Rightarrow> async_config \<Rightarrow> string" where
  "DatabaseURL getenv a = getenv (databaseEnv a)"

definition RedisURL :: "(string \<Rightarrow> string) \<Rightarrow> async_config \<Rightarrow> string" where
  "RedisURL getenv a = getenv (redisEnv a)"

definition WorkerCount :: "async_config \<Rightarrow> int" where
  "WorkerCount a = (if ac_Workers a \<le> 0 then 1 else ac_Workers a)"

text \<open>\<open>time.Duration(ms) * time.Millisecond\<close>, which wraps around.\<close>

definition from_ms :: "int \<Rightarrow> int" where
  "from_ms ms = wrap64 (ms * millisecond)"

definition Async_Lease :: "async_config \<Rightarrow> int" where
  "Async_Lease a = (if LeaseMS a \<le> 0 then defaultLease else from_ms (LeaseMS a))"

text \<open>Go's division truncates towards zero.\<close>

definition truncating_third :: "int \<Rightarrow> int" where
  "truncating_third d = (if d < 0 then - (- d div 3) else d div 3)"

definition Async_Heartbeat :: "async_config \<Rightarrow> int" where
  "Async_Heartbeat a = (if HeartbeatMS a \<le> 0 then truncating_third (Async_Lease a) else from_ms (HeartbeatMS a))"

definition Async_ReaperInterval :: "async_config \<Rightarrow> int" where
  "Async_ReaperInterval a = (if ReaperIntervalMS a \<le> 0 then defaultReaperInterval else from_ms (ReaperIntervalMS a))"

definition Async_WorkerTTL :: "async_config \<Rightarrow> int" where
  "Async_WorkerTTL a = (if WorkerTTLMS a \<le> 0 then wrap64 (4 * Async_Lease a) else from_ms (WorkerTTLMS a))"

definition ReaperEnabled :: "async_config \<Rightarrow> bool" where
  "ReaperEnabled a = (case Reaper a of None \<Rightarrow> True | Some b \<Rightarrow> b)"

definition Workflow_RetryDelay :: "workflow_config \<Rightarrow> int" where
  "Workflow_RetryDelay w = from_ms (RetryDelayMS w)"

definition Agent_Timeout :: "agent_config \<Rightarrow> int" where
  "Agent_Timeout a = from_ms (TimeoutMS a)"

section \<open>Validation\<close>

definition Async_validate :: "(string \<Rightarrow> string) \<Rightarrow> async_config \<Rightarrow> gerror option" where
  "Async_validate getenv a =
     (if ac_Workers a < 0 then Some (Errorf ''async workers must be non-negative'')
      else if LeaseMS a < 0 \<or> HeartbeatMS a < 0 \<or> ReaperIntervalMS a < 0 \<or> WorkerTTLMS a < 0
      then Some (Errorf ''async lease, heartbeat, reaper, and worker TTL values must be non-negative'')
      else if ac_MaxAttempts a < 0 \<or> ac_ReclaimBatch a < 0
      then Some (Errorf ''async max_attempts and reclaim_batch must be non-negative'')
      else if HeartbeatMS a > 0 \<and> LeaseMS a > 0 \<and> HeartbeatMS a \<ge> LeaseMS a
      then Some (Errorf ''async heartbeat_ms must be shorter than lease_ms'')
      else if \<not> Enabled a then None
      else if DatabaseURL getenv a = []
      then Some (Errorf (''async is enabled but '' @ databaseEnv a @ '' is not set''))
      else if RedisURL getenv a = []
      then Some (Errorf (''async is enabled but '' @ redisEnv a @ '' is not set''))
      else None)"

fun validate_agents :: "(string \<times> agent_config) list \<Rightarrow> gerror option" where
  "validate_agents [] = None"
| "validate_agents ((name, agent) # rest) =
     (if name = [] \<or> ModelID agent = [] then Some (Errorf ''agents must have a name and model_id'')
      else if MaxTokens agent < 0 \<or> TimeoutMS agent < 0
      then Some (Errorf (''agent '' @ go_quote name @ '' values must be non-negative''))
      else validate_agents rest)"

text \<open>The agents in the order Go ranges over their map in.\<close>

definition in_order :: "(string list \<Rightarrow> string list) \<Rightarrow> (string \<times> 'v) list \<Rightarrow> (string \<times> 'v) list" where
  "in_order ord m = map (\<lambda>k. (k, the (map_of m k))) (range_order ord (map fst m))"

definition validate :: "(string list \<Rightarrow> string list) \<Rightarrow> (string \<Rightarrow> string) \<Rightarrow> app_config \<Rightarrow> gerror option" where
  "validate ord getenv c =
     (if wc_MaxRetries (cf_Workflow c) < 0 \<or> RetryDelayMS (cf_Workflow c) < 0
      then Some (Errorf ''workflow retry values must be non-negative'')
      else case Async_validate getenv (cf_Async c) of
             Some e \<Rightarrow> Some e
           | None \<Rightarrow> validate_agents (in_order ord (cf_Agents c)))"

definition Load ::
  "(string list \<Rightarrow> string list) \<Rightarrow> (string \<Rightarrow> string) \<Rightarrow> (string \<Rightarrow> gerror + string)
   \<Rightarrow> (string \<Rightarrow> gerror + app_config) \<Rightarrow> string \<Rightarrow> gerror + app_config" where
  "Load ord getenv read_file unmarshal path =
     (case read_file path of
        Inl e \<Rightarrow> Inl (Wrapf (''read config: '' @ error_text e) e)
      | Inr data \<Rightarrow>
          (case unmarshal data of
             Inl e \<Rightarrow> Inl (Wrapf (''decode config: '' @ error_text e) e)
           | Inr c \<Rightarrow>
               (let c = (if Address (cf_Server c) = []
                         then c\<lparr>cf_Server := (cf_Server c)\<lparr>Address := defaultAddress\<rparr>\<rparr> else c)
                in case validate ord getenv c of
                     Some e \<Rightarrow> Inl e
                   | None \<Rightarrow> Inr c)))"

section \<open>The configuration of the service\<close>

text \<open>What \<open>newJobService\<close> (\<^verbatim>\<open>cmd/anchora/main.go\<close>) passes on.\<close>

definition job_config :: "async_config \<Rightarrow> config" where
  "job_config a =
     \<lparr>Lease = Async_Lease a, Heartbeat = Async_Heartbeat a, MaxAttempts = ac_MaxAttempts a,
      ReaperInterval = Async_ReaperInterval a, WorkerTTL = Async_WorkerTTL a,
      ReclaimBatch = ac_ReclaimBatch a, QueueName = ac_QueueName a\<rparr>"

definition workflow_options :: "workflow_config \<Rightarrow> options" where
  "workflow_options w = \<lparr>MaxRetries = wc_MaxRetries w, RetryDelay = Workflow_RetryDelay w, Resume = []\<rparr>"

section \<open>Properties\<close>

lemma from_ms_dvd: "64 dvd from_ms ms"
proof -
  have "(64::int) dvd 2 ^ 63" by (rule dvdI [of _ _ "2 ^ 57"]) simp
  moreover have "(64::int) dvd ms * millisecond"
    by (rule dvd_mult) (simp add: millisecond_def)
  ultimately show ?thesis unfolding from_ms_def by (rule wrap64_dvd)
qed

lemma from_ms_exact: "0 \<le> ms \<Longrightarrow> ms \<le> 9223372036854 \<Longrightarrow> from_ms ms = ms * 1000000"
  by (simp add: from_ms_def millisecond_def wrap64_id in_int64_def)

lemma Async_Lease_dvd: "64 dvd Async_Lease a"
  using from_ms_dvd by (simp add: Async_Lease_def defaultLease_def second_def)

lemma heartbeat_fits:
  "0 < Config_heartbeat (job_config a) \<and> Config_heartbeat (job_config a) < Config_lease (job_config a)"
proof -
  let ?c = "job_config a"
  have "64 dvd Config_lease ?c"
    using Async_Lease_dvd by (simp add: Config_lease_def job_config_def defaultLease_def second_def)
  with lease_pos [of ?c] have "64 \<le> Config_lease ?c" by (simp add: zdvd_imp_le)
  then have "0 < Config_lease ?c div 3" "Config_lease ?c div 3 < Config_lease ?c" by simp_all
  then show ?thesis by (simp add: Config_heartbeat_def)
qed

text \<open>
  C36: no configuration makes a worker panic or outlive its lease. For every configuration,
  also one whose milliseconds overflow a 64-bit duration, the service ends up with a positive
  lease, a heartbeat that is positive and shorter than the lease, and a positive interval of
  the reaper, so no ticker is created with an interval Go refuses.
\<close>

theorem configured_service_is_safe:
  "0 < Config_heartbeat (job_config a) \<and> Config_heartbeat (job_config a) < Config_lease (job_config a) \<and>
   0 < Config_reaperInterval (job_config a) \<and> 0 < Config_reclaimBatch (job_config a)"
  using heartbeat_fits [of a] reclaimBatch_pos [of "job_config a"]
  by (simp add: Config_reaperInterval_def defaultReaperInterval_def second_def)

lemma Load_valid:
  assumes "Load ord getenv read_file unmarshal path = Inr c"
  shows "validate ord getenv c = None \<and> Address (cf_Server c) \<noteq> [] \<and>
    \<not> (Enabled (cf_Async c) \<and> (DatabaseURL getenv (cf_Async c) = [] \<or> RedisURL getenv (cf_Async c) = []))"
proof -
  have valid: "validate ord getenv c = None" and addr: "Address (cf_Server c) \<noteq> []"
    using assms by (auto simp: Load_def Let_def defaultAddress_def split: sum.splits option.splits if_splits)
  then have "Async_validate getenv (cf_Async c) = None"
    by (auto simp: validate_def split: option.splits if_splits)
  with valid addr show ?thesis by (auto simp: Async_validate_def split: if_splits)
qed


definition plain_async :: async_config where
  "plain_async = \<lparr>Enabled = False, DatabaseURLEnv = [], RedisURLEnv = [], ac_QueueName = [], ac_Workers = 2,
     LeaseMS = 0, HeartbeatMS = 45000, ac_MaxAttempts = 3, ReaperIntervalMS = 0, WorkerTTLMS = 0,
     ac_ReclaimBatch = 0, Reaper = None\<rparr>"

definition plain_config :: "int \<Rightarrow> app_config" where
  "plain_config delay = \<lparr>cf_Server = \<lparr>Address = []\<rparr>,
     cf_Workflow = \<lparr>wc_MaxRetries = 2, RetryDelayMS = delay\<rparr>, cf_Async = plain_async, cf_Agents = []\<rparr>"




end
