(* ===== verification/Json_Codec.thy ===== *)
theory Json_Codec
  imports Workflow_Prompt
begin

text \<open>
  What the program uses of \<^verbatim>\<open>encoding/json\<close>: the encoder for the values the HTTP API
  answers with (theory Http_Api), and the scanner for the request bodies it accepts. Strings
  are bytes; invalid UTF-8 becomes U+FFFD in both directions, as in Go.

  The scanner accepts objects, arrays, strings and \<open>null\<close>. A request has no field of another
  type and refuses unknown fields, so a number or a truth value anywhere in a body is an error
  in Go too: of syntax, of type, or an unknown field.
\<close>

section \<open>UTF-8\<close>

definition byte :: "char \<Rightarrow> nat" where
  "byte c = of_char c"

definition continuation :: "char \<Rightarrow> bool" where
  "continuation c \<longleftrightarrow> 128 \<le> byte c \<and> byte c < 192"

text \<open>
  \<open>utf8.DecodeRune\<close>: the length of the valid encoding at the start of the text, 0 when there
  is none. The second byte excludes overlong forms, surrogates and values above U+10FFFF.
\<close>

definition second_byte :: "nat \<Rightarrow> char \<Rightarrow> bool" where
  "second_byte lead c \<longleftrightarrow>
     (if lead = 224 then 160 else if lead = 240 then 144 else 128) \<le> byte c \<and>
     byte c < (if lead = 237 then 160 else if lead = 244 then 144 else 192)"

fun utf8_len :: "string \<Rightarrow> nat" where
  "utf8_len [] = 0"
| "utf8_len (a # s) =
     (if byte a < 128 then 1
      else if byte a < 194 then 0
      else if byte a < 224
      then (case s of b # _ \<Rightarrow> if second_byte (byte a) b then 2 else 0 | _ \<Rightarrow> 0)
      else if byte a < 240
      then (case s of b # c # _ \<Rightarrow> if second_byte (byte a) b \<and> continuation c then 3 else 0 | _ \<Rightarrow> 0)
      else if byte a < 245
      then (case s of b # c # e # _ \<Rightarrow>
              if second_byte (byte a) b \<and> continuation c \<and> continuation e then 4 else 0 | _ \<Rightarrow> 0)
      else 0)"

lemma utf8_len_le: "utf8_len s \<le> length s"
  by (cases s) (auto split: list.splits)

lemma utf8_len_take: "0 < utf8_len s \<Longrightarrow> utf8_len (take (utf8_len s) s @ t) = utf8_len s"
  by (cases s) (auto split: list.splits if_splits)

declare utf8_len.simps(2) [simp del]

function utf8_valid :: "string \<Rightarrow> bool" where
  "utf8_valid s =
     (if s = [] then True else if utf8_len s = 0 then False else utf8_valid (drop (utf8_len s) s))"
  by pat_completeness auto
termination
  by (relation "measure length") auto

declare utf8_valid.simps [simp del]

text \<open>\<open>utf8.EncodeRune\<close>, for code points that are no surrogates.\<close>

definition utf8_encode :: "nat \<Rightarrow> string" where
  "utf8_encode n =
     (if n < 128 then [char_of n]
      else if n < 2048 then [char_of (192 + n div 64), char_of (128 + n mod 64)]
      else if n < 65536
      then [char_of (224 + n div 4096), char_of (128 + n div 64 mod 64), char_of (128 + n mod 64)]
      else [char_of (240 + n div 262144), char_of (128 + n div 4096 mod 64), char_of (128 + n div 64 mod 64),
            char_of (128 + n mod 64)])"

definition replacement :: string where
  "replacement = [CHR 0xEF, CHR 0xBF, CHR 0xBD]"

section \<open>Values\<close>

datatype json =
  JNull
| JBool bool
| JNumber int
| JString string
| JArray "json list"
| JObject "(string \<times> json) list"

section \<open>The encoder\<close>

text \<open>
  \<open>json.Encoder\<close> with HTML escaping, which is on: quotes and backslashes, control characters,
  the characters \<^verbatim>\<open><\<close>, \<^verbatim>\<open>>\<close> and \<^verbatim>\<open>&\<close>, and U+2028 and U+2029 are escaped.
\<close>

definition escape_ascii :: "char \<Rightarrow> string" where
  "escape_ascii c =
     (if c = CHR 0x22 \<or> c = CHR 0x5C then [CHR 0x5C, c]
      else if c = CHR 0x08 then [CHR 0x5C, CHR ''b''] else if c = CHR 0x0C then [CHR 0x5C, CHR ''f'']
      else if c = CHR 0x0A then [CHR 0x5C, CHR ''n''] else if c = CHR 0x0D then [CHR 0x5C, CHR ''r'']
      else if c = CHR 0x09 then [CHR 0x5C, CHR ''t'']
      else if byte c < 32 \<or> c = CHR ''<'' \<or> c = CHR ''>'' \<or> c = CHR ''&''
      then [CHR 0x5C, CHR ''u'', CHR ''0'', CHR ''0'', hex_digit (byte c div 16), hex_digit (byte c mod 16)]
      else [c])"

definition escape_wide :: "string \<Rightarrow> string" where
  "escape_wide r =
     (if r = [CHR 0xE2, CHR 0x80, CHR 0xA8] then CHR 0x5C # ''u2028''
      else if r = [CHR 0xE2, CHR 0x80, CHR 0xA9] then CHR 0x5C # ''u2029'' else r)"

function escape :: "string \<Rightarrow> string" where
  "escape [] = []"
| "escape (c # s) =
     (if byte c < 128 then escape_ascii c @ escape s
      else if utf8_len (c # s) = 0 then CHR 0x5C # ''ufffd'' @ escape s
      else escape_wide (take (utf8_len (c # s)) (c # s)) @ escape (drop (utf8_len (c # s)) (c # s)))"
  by pat_completeness auto
termination
  by (relation "measure length") auto

declare escape.simps(2) [simp del]

definition quoted :: "string \<Rightarrow> string" where
  "quoted s = CHR 0x22 # escape s @ [CHR 0x22]"

fun commas :: "string list \<Rightarrow> string" where
  "commas [] = []"
| "commas [x] = x"
| "commas (x # y # xs) = x @ CHR 0x2C # commas (y # xs)"

fun encode_json :: "json \<Rightarrow> string" where
  "encode_json JNull = ''null''"
| "encode_json (JBool b) = (if b then ''true'' else ''false'')"
| "encode_json (JNumber n) = itoa n"
| "encode_json (JString s) = quoted s"
| "encode_json (JArray vs) = CHR 0x5B # commas (map encode_json vs) @ [CHR 0x5D]"
| "encode_json (JObject kvs) =
     CHR 0x7B # commas (map (\<lambda>(k, v). quoted k @ CHR 0x3A # encode_json v) kvs) @ [CHR 0x7D]"

section \<open>The scanner\<close>

definition hex_value :: "char \<Rightarrow> nat option" where
  "hex_value c =
     (if CHR ''0'' \<le> c \<and> c \<le> CHR ''9'' then Some (byte c - 48)
      else if CHR ''a'' \<le> c \<and> c \<le> CHR ''f'' then Some (byte c - 87)
      else if CHR ''A'' \<le> c \<and> c \<le> CHR ''F'' then Some (byte c - 55)
      else None)"

fun hex4 :: "string \<Rightarrow> (nat \<times> string) option" where
  "hex4 (a # b # c # e # r) =
     (case (hex_value a, hex_value b, hex_value c, hex_value e) of
        (Some w, Some x, Some y, Some z) \<Rightarrow> Some (4096 * w + 256 * x + 16 * y + z, r)
      | _ \<Rightarrow> None)"
| "hex4 _ = None"

text \<open>
  The escape \<open>\u\<close>. A high surrogate followed by an escaped low one is one code point; any other
  surrogate is U+FFFD and the text after it is read again.
\<close>

definition read_unicode :: "string \<Rightarrow> (string \<times> string) option" where
  "read_unicode s =
     (case hex4 s of
        None \<Rightarrow> None
      | Some (u, r) \<Rightarrow>
          if 55296 \<le> u \<and> u < 57344
          then (case strip_prefix (CHR 0x5C # ''u'') r of
                  None \<Rightarrow> Some (replacement, r)
                | Some r1 \<Rightarrow>
                    (case hex4 r1 of
                       None \<Rightarrow> Some (replacement, r)
                     | Some (l, r2) \<Rightarrow>
                         if u < 56320 \<and> 56320 \<le> l \<and> l < 57344
                         then Some (utf8_encode (65536 + (u - 55296) * 1024 + (l - 56320)), r2)
                         else Some (replacement, r)))
          else Some (utf8_encode u, r))"

definition read_escape :: "string \<Rightarrow> (string \<times> string) option" where
  "read_escape s =
     (case s of
        [] \<Rightarrow> None
      | c # r \<Rightarrow>
          if c = CHR 0x22 \<or> c = CHR 0x5C \<or> c = CHR ''/'' then Some ([c], r)
          else if c = CHR ''b'' then Some ([CHR 0x08], r) else if c = CHR ''f'' then Some ([CHR 0x0C], r)
          else if c = CHR ''n'' then Some ([CHR 0x0A], r) else if c = CHR ''r'' then Some ([CHR 0x0D], r)
          else if c = CHR ''t'' then Some ([CHR 0x09], r)
          else if c = CHR ''u'' then read_unicode r else None)"

lemma hex4_shorter: "hex4 s = Some (u, r) \<Longrightarrow> length r < length s"
  by (induction s rule: hex4.induct) (auto split: option.splits)

lemma strip_prefix_length: "strip_prefix p s = Some r \<Longrightarrow> length s = length p + length r"
  by (induction p s rule: strip_prefix.induct) (auto split: if_splits)

lemma read_unicode_shorter: "read_unicode s = Some (t, r) \<Longrightarrow> length r < length s"
  by (auto simp: read_unicode_def dest!: hex4_shorter strip_prefix_length split: option.splits if_splits)

lemma read_escape_shorter: "read_escape s = Some (t, r) \<Longrightarrow> length r < length s"
  by (auto simp: read_escape_def dest: read_unicode_shorter split: list.splits if_splits)

definition prepend :: "string \<Rightarrow> (string \<times> string) option \<Rightarrow> (string \<times> string) option" where
  "prepend t res = map_option (\<lambda>(u, r). (t @ u, r)) res"

text \<open>A string after its opening quote: its value, and the text after the closing quote.\<close>

function read_string :: "string \<Rightarrow> (string \<times> string) option" where
  "read_string [] = None"
| "read_string (c # s) =
     (if c = CHR 0x22 then Some ([], s)
      else if byte c < 32 then None
      else if c = CHR 0x5C
      then (case read_escape s of None \<Rightarrow> None | Some (t, r) \<Rightarrow> prepend t (read_string r))
      else if byte c < 128 then prepend [c] (read_string s)
      else if utf8_len (c # s) = 0 then prepend replacement (read_string s)
      else prepend (take (utf8_len (c # s)) (c # s)) (read_string (drop (utf8_len (c # s)) (c # s))))"
  by pat_completeness auto
termination
  by (relation "measure length") (auto dest: read_escape_shorter)

declare read_string.simps(2) [simp del]

definition skip_space :: "string \<Rightarrow> string" where
  "skip_space s = dropWhile (\<lambda>c. c = CHR 0x20 \<or> c = CHR 0x09 \<or> c = CHR 0x0A \<or> c = CHR 0x0D) s"

text \<open>
  A value at the start of the text and the text after it. Every call reads at least one byte
  before the next, so a fuel of the length of the text is never used up (\<open>parse_fuel\<close>).
\<close>

fun parse_value :: "nat \<Rightarrow> string \<Rightarrow> (json \<times> string) option"
and parse_elements :: "nat \<Rightarrow> string \<Rightarrow> (json list \<times> string) option"
and parse_members :: "nat \<Rightarrow> string \<Rightarrow> ((string \<times> json) list \<times> string) option" where
  "parse_value 0 s = None"
| "parse_value (Suc n) s =
     (case skip_space s of
        [] \<Rightarrow> None
      | c # r \<Rightarrow>
          if c = CHR 0x22 then map_option (\<lambda>(t, r1). (JString t, r1)) (read_string r)
          else if c = CHR 0x5B
          then (case strip_prefix [CHR 0x5D] (skip_space r) of
                  Some r1 \<Rightarrow> Some (JArray [], r1)
                | None \<Rightarrow> map_option (\<lambda>(vs, r1). (JArray vs, r1)) (parse_elements n r))
          else if c = CHR 0x7B
          then (case strip_prefix [CHR 0x7D] (skip_space r) of
                  Some r1 \<Rightarrow> Some (JObject [], r1)
                | None \<Rightarrow> map_option (\<lambda>(kvs, r1). (JObject kvs, r1)) (parse_members n r))
          else map_option (\<lambda>r1. (JNull, r1)) (strip_prefix ''null'' (c # r)))"
| "parse_elements 0 s = None"
| "parse_elements (Suc n) s =
     (case parse_value n s of
        None \<Rightarrow> None
      | Some (v, r) \<Rightarrow>
          (case skip_space r of
             [] \<Rightarrow> None
           | c # r1 \<Rightarrow>
               if c = CHR 0x2C then map_option (\<lambda>(vs, r2). (v # vs, r2)) (parse_elements n r1)
               else if c = CHR 0x5D then Some ([v], r1) else None))"
| "parse_members 0 s = None"
| "parse_members (Suc n) s =
     (case strip_prefix [CHR 0x22] (skip_space s) of
        None \<Rightarrow> None
      | Some r \<Rightarrow>
          (case read_string r of
             None \<Rightarrow> None
           | Some (k, r1) \<Rightarrow>
               (case strip_prefix [CHR 0x3A] (skip_space r1) of
                  None \<Rightarrow> None
                | Some r2 \<Rightarrow>
                    (case parse_value n r2 of
                       None \<Rightarrow> None
                     | Some (v, r3) \<Rightarrow>
                         (case skip_space r3 of
                            [] \<Rightarrow> None
                          | c # r4 \<Rightarrow>
                              if c = CHR 0x2C then map_option (\<lambda>(kvs, r5). ((k, v) # kvs, r5)) (parse_members n r4)
                              else if c = CHR 0x7D then Some ([(k, v)], r4) else None)))))"

declare parse_value.simps(2) [simp del] parse_elements.simps(2) [simp del] parse_members.simps(2) [simp del]

definition parse_json :: "string \<Rightarrow> (json \<times> string) option" where
  "parse_json s = parse_value (Suc (2 * length s)) s"

section \<open>The fuel of the scanner\<close>

lemma skip_space_le: "length (skip_space s) \<le> length s"
  by (simp add: skip_space_def length_dropWhile_le)

lemma skip_space_shorter: "skip_space s = c # r \<Longrightarrow> length r < length s"
  using skip_space_le [of s] by simp

lemma strip_space_shorter: "strip_prefix [c] (skip_space s) = Some r \<Longrightarrow> length r < length s"
  using skip_space_le [of s] by (auto dest!: strip_prefix_length)

lemma read_string_shorter: "read_string s = Some (t, r) \<Longrightarrow> length r < length s"
proof (induction s arbitrary: t rule: read_string.induct)
  case (2 c s)
  show ?case
  proof (cases "c = CHR 0x5C")
    case True
    then have step: "\<not> c = CHR 0x22" "\<not> byte c < 32" by (simp_all add: byte_def)
    with True "2.prems" obtain u r1 t1 where e: "read_escape s = Some (u, r1)" and "read_string r1 = Some (t1, r)"
      by (auto simp: read_string.simps(2) [of "CHR 0x5C" s] prepend_def split: option.splits)
    from "2.IH"(1) [OF step True e refl this(2)] read_escape_shorter [OF e] show ?thesis by simp
  next
    case False
    with "2.prems" "2.IH"(2-4) show ?thesis
      by (fastforce simp: read_string.simps(2) [of c s] prepend_def split: if_splits)
  qed
qed simp

lemma parse_shorter:
  "parse_value n s = Some (v, r) \<Longrightarrow> length r < length s"
  "parse_elements n s = Some (vs, r) \<Longrightarrow> length r < length s"
  "parse_members n s = Some (kvs, r) \<Longrightarrow> length r < length s"
proof (induction n s and n s and n s arbitrary: v r and vs r and kvs r
    rule: parse_value_parse_elements_parse_members.induct)
  case (2 n s)
  show ?case
  proof (cases "skip_space s")
    case (Cons c rest)
    with "2.prems" "2.IH" [OF Cons] skip_space_shorter [OF Cons] show ?thesis
      unfolding parse_value.simps(2) [of n s]
      by (fastforce dest: read_string_shorter strip_space_shorter strip_prefix_length split: if_splits option.splits)
  qed (use "2.prems" in \<open>simp add: parse_value.simps(2)\<close>)
next
  case (4 n s)
  from "4.prems" obtain v1 r1 c r2 where
    v1: "parse_value n s = Some (v1, r1)" and c: "skip_space r1 = c # r2"
    by (auto simp: parse_elements.simps(2) [of n s] split: option.splits list.splits)
  have "length r2 < length s" using "4.IH"(1) [OF v1] skip_space_shorter [OF c] by simp
  with "4.prems" "4.IH"(2) [OF v1 refl c] show ?case
    by (fastforce simp: parse_elements.simps(2) [of n s] v1 c split: if_splits)
next
  case (6 n s)
  from "6.prems" obtain r0 k r1 r2 v1 r3 c r4 where
    chain: "strip_prefix [CHR 0x22] (skip_space s) = Some r0" "read_string r0 = Some (k, r1)"
    "strip_prefix [CHR 0x3A] (skip_space r1) = Some r2" "parse_value n r2 = Some (v1, r3)"
    "skip_space r3 = c # r4"
    by (auto simp: parse_members.simps(2) [of n s] split: option.splits list.splits)
  have "length r4 < length s"
    using strip_space_shorter [OF chain(1)] read_string_shorter [OF chain(2)] strip_space_shorter [OF chain(3)]
      "6.IH"(1) [OF chain(1,2) refl chain(3,4)] skip_space_shorter [OF chain(5)] by simp
  with "6.prems" "6.IH"(2) [OF chain(1,2) refl chain(3,4) refl chain(5)] show ?case
    by (fastforce simp: parse_members.simps(2) [of n s] chain split: if_splits)
qed simp_all

lemma parse_fuel_irrelevant:
  shows "2 * length s < n \<Longrightarrow> 2 * length s < m \<Longrightarrow> parse_value n s = parse_value m s"
    and "Suc (2 * length s) < n \<Longrightarrow> Suc (2 * length s) < m \<Longrightarrow> parse_elements n s = parse_elements m s"
    and "Suc (2 * length s) < n \<Longrightarrow> Suc (2 * length s) < m \<Longrightarrow> parse_members n s = parse_members m s"
proof (induction n s and n s and n s arbitrary: m and m and m rule: parse_value_parse_elements_parse_members.induct)
  case (2 n s)
  from "2.prems" obtain m' where m: "m = Suc m'" by (cases m) auto
  show ?case
  proof (cases "skip_space s")
    case (Cons c rest)
    have fuel: "Suc (2 * length rest) < n" "Suc (2 * length rest) < m'"
      using "2.prems" skip_space_shorter [OF Cons] m by simp_all
    have "parse_elements n rest = parse_elements m' rest"
      if "c \<noteq> CHR 0x22" "c = CHR 0x5B" "strip_prefix [CHR 0x5D] (skip_space rest) = None"
      using "2.IH"(1) [OF Cons that fuel] .
    moreover have "parse_members n rest = parse_members m' rest"
      if "c \<noteq> CHR 0x22" "c \<noteq> CHR 0x5B" "c = CHR 0x7B" "strip_prefix [CHR 0x7D] (skip_space rest) = None"
      using "2.IH"(2) [OF Cons that fuel] .
    ultimately show ?thesis
      by (auto simp: m parse_value.simps(2) Cons split: option.split)
  qed (simp add: m parse_value.simps(2))
next
  case (4 n s)
  from "4.prems" obtain m' where m: "m = Suc m'" by (cases m) auto
  have v: "parse_value n s = parse_value m' s" by (rule "4.IH"(1)) (use "4.prems" m in simp_all)
  show ?case
  proof (cases "parse_value n s")
    case (Some vr)
    then obtain v1 r1 where v1: "parse_value n s = Some (v1, r1)" by (metis prod.exhaust)
    show ?thesis
    proof (cases "skip_space r1")
      case (Cons c r2)
      have "length r2 < length s" using parse_shorter(1) [OF v1] skip_space_shorter [OF Cons] by simp
      with "4.prems" m have fuel: "Suc (2 * length r2) < n" "Suc (2 * length r2) < m'" by simp_all
      from "4.IH"(2) [OF v1 refl Cons _ fuel] show ?thesis
        by (simp add: m parse_elements.simps(2) v1 v [symmetric] Cons)
    qed (simp add: m parse_elements.simps(2) v1 v [symmetric])
  qed (simp add: m parse_elements.simps(2) v [symmetric])
next
  case (6 n s)
  from "6.prems" obtain m' where m: "m = Suc m'" by (cases m) auto
  show ?case
  proof (cases "\<exists>r0 k r1 r2. strip_prefix [CHR 0x22] (skip_space s) = Some r0 \<and> read_string r0 = Some (k, r1) \<and>
      strip_prefix [CHR 0x3A] (skip_space r1) = Some r2")
    case True
    then obtain r0 k r1 r2 where
      chain: "strip_prefix [CHR 0x22] (skip_space s) = Some r0" "read_string r0 = Some (k, r1)"
      "strip_prefix [CHR 0x3A] (skip_space r1) = Some r2" by blast
    have len: "length r2 < length s"
      using strip_space_shorter [OF chain(1)] read_string_shorter [OF chain(2)] strip_space_shorter [OF chain(3)]
      by simp
    have v: "parse_value n r2 = parse_value m' r2"
      by (rule "6.IH"(1) [OF chain(1,2) refl chain(3)]) (use "6.prems" len m in simp_all)
    show ?thesis
    proof (cases "\<exists>v1 r3 c r4. parse_value n r2 = Some (v1, r3) \<and> skip_space r3 = c # r4")
      case True
      then obtain v1 r3 c r4 where v1: "parse_value n r2 = Some (v1, r3)" and c: "skip_space r3 = c # r4" by blast
      have "length r4 < length s" using len parse_shorter(1) [OF v1] skip_space_shorter [OF c] by simp
      with "6.prems" m have fuel: "Suc (2 * length r4) < n" "Suc (2 * length r4) < m'" by simp_all
      from "6.IH"(2) [OF chain(1,2) refl chain(3) v1 refl c _ fuel] show ?thesis
        by (simp add: m parse_members.simps(2) chain v1 v [symmetric] c)
    next
      case False
      then show ?thesis
        by (simp add: m parse_members.simps(2) chain v [symmetric] split: option.split list.split) blast
    qed
  qed (simp add: m parse_members.simps(2) split: option.split; blast)
qed simp_all

lemma parse_fuel: "2 * length s < n \<Longrightarrow> parse_value n s = parse_json s"
  unfolding parse_json_def by (rule parse_fuel_irrelevant(1)) simp_all

end
