(* ===== verification/Http_Api.thy ===== *)
theory Http_Api
  imports Json_Codec Jobs_Service
begin

text \<open>
  The HTTP API (\<^verbatim>\<open>internal/httpapi/router.go\<close>): the table of routes, the decoding of request
  bodies, and one function per handler. A handler takes the body or parameters of its request
  and the state of the world and returns the response with the next state. The router package
  matches URLs against the table; its matcher is an argument of \<open>serve\<close>.
\<close>

section \<open>Requests\<close>

text \<open>
  A Go slice as \<^verbatim>\<open>encoding/json\<close> fills it: the elements of its backing array and its length.
  When a key occurs twice in an object, the second array is decoded into the elements the
  first one left there.
\<close>

type_synonym 'e slice = "'e list \<times> nat"

definition contents :: "'e slice \<Rightarrow> 'e list" where
  "contents s = take (snd s) (fst s)"

definition nil_slice :: "'e slice" where
  "nil_slice = ([], 0)"

record step_request =
  sr_ID :: string
  sr_Agent :: string
  sr_Prompt :: string
  sr_DependsOn :: "string slice"

record run_request =
  rq_Steps :: "step_request slice"

definition no_step :: step_request where
  "no_step = \<lparr>sr_ID = [], sr_Agent = [], sr_Prompt = [], sr_DependsOn = nil_slice\<rparr>"

definition maxRequestBytes :: nat where
  "maxRequestBytes = 1048576"

subsection \<open>Decoding into a struct\<close>

text \<open>
  Field names match without regard to case. Besides the ASCII letters, U+017F folds to the
  letter s and U+212A to the letter k.
\<close>

function fold_name :: "string \<Rightarrow> string" where
  "fold_name [] = []"
| "fold_name (c # s) =
     (if CHR ''A'' \<le> c \<and> c \<le> CHR ''Z'' then char_of (byte c + 32) # fold_name s
      else case strip_prefix [CHR 0xC5, CHR 0xBF] (c # s) of
        Some r \<Rightarrow> CHR ''s'' # fold_name r
      | None \<Rightarrow>
          (case strip_prefix [CHR 0xE2, CHR 0x84, CHR 0xAA] (c # s) of
             Some r \<Rightarrow> CHR ''k'' # fold_name r
           | None \<Rightarrow> c # fold_name s))"
  by pat_completeness auto
termination
  by (relation "measure length") (auto dest!: strip_prefix_length split: if_splits)

text \<open>\<open>null\<close> leaves a string as it is and makes a slice nil. \<open>None\<close> is a decoding error.\<close>

definition decode_string :: "string \<Rightarrow> json \<Rightarrow> string option" where
  "decode_string old v = (case v of JString s \<Rightarrow> Some s | JNull \<Rightarrow> Some old | _ \<Rightarrow> None)"

fun decode_elements :: "('e \<Rightarrow> json \<Rightarrow> 'e option) \<Rightarrow> 'e \<Rightarrow> 'e list \<Rightarrow> json list \<Rightarrow> 'e list option" where
  "decode_elements dec zero backing [] = Some backing"
| "decode_elements dec zero backing (v # vs) =
     (case dec (case backing of [] \<Rightarrow> zero | e # _ \<Rightarrow> e) v of
        None \<Rightarrow> None
      | Some e \<Rightarrow> map_option ((#) e) (decode_elements dec zero (drop 1 backing) vs))"

definition decode_slice :: "('e \<Rightarrow> json \<Rightarrow> 'e option) \<Rightarrow> 'e \<Rightarrow> 'e slice \<Rightarrow> json \<Rightarrow> 'e slice option" where
  "decode_slice dec zero old v =
     (case v of
        JNull \<Rightarrow> Some nil_slice
      | JArray vs \<Rightarrow>
          if vs = [] then Some nil_slice
          else map_option (\<lambda>backing. (backing, length vs)) (decode_elements dec zero (fst old) vs)
      | _ \<Rightarrow> None)"

fun decode_members :: "(string \<Rightarrow> json \<Rightarrow> 's \<Rightarrow> 's option) \<Rightarrow> (string \<times> json) list \<Rightarrow> 's \<Rightarrow> 's option" where
  "decode_members field [] st = Some st"
| "decode_members field ((k, v) # kvs) st =
     (case field (fold_name k) v st of None \<Rightarrow> None | Some st' \<Rightarrow> decode_members field kvs st')"

definition decode_struct :: "(string \<Rightarrow> json \<Rightarrow> 's \<Rightarrow> 's option) \<Rightarrow> 's \<Rightarrow> json \<Rightarrow> 's option" where
  "decode_struct field st v =
     (case v of JObject kvs \<Rightarrow> decode_members field kvs st | JNull \<Rightarrow> Some st | _ \<Rightarrow> None)"

text \<open>The tags of the structs. An unknown name is an error.\<close>

definition step_field :: "string \<Rightarrow> json \<Rightarrow> step_request \<Rightarrow> step_request option" where
  "step_field k v st =
     (if k = ''id'' then map_option (\<lambda>s. st\<lparr>sr_ID := s\<rparr>) (decode_string (sr_ID st) v)
      else if k = ''agent'' then map_option (\<lambda>s. st\<lparr>sr_Agent := s\<rparr>) (decode_string (sr_Agent st) v)
      else if k = ''prompt'' then map_option (\<lambda>s. st\<lparr>sr_Prompt := s\<rparr>) (decode_string (sr_Prompt st) v)
      else if k = ''depends_on''
      then map_option (\<lambda>ds. st\<lparr>sr_DependsOn := ds\<rparr>) (decode_slice decode_string [] (sr_DependsOn st) v)
      else None)"

definition request_field :: "string \<Rightarrow> json \<Rightarrow> run_request \<Rightarrow> run_request option" where
  "request_field k v rq =
     (if k = ''steps''
      then map_option (\<lambda>ss. rq\<lparr>rq_Steps := ss\<rparr>) (decode_slice (decode_struct step_field) no_step (rq_Steps rq) v)
      else None)"

text \<open>
  \<open>Decode\<close> reads one value, at most \<open>maxRequestBytes\<close> into the body, and ignores what follows
  it. A \<open>null\<close> that ends exactly at the limit of a longer body is not recognised as complete.
\<close>

definition decodeRunRequest :: "string \<Rightarrow> run_request option" where
  "decodeRunRequest body =
     (case parse_json (take maxRequestBytes body) of
        None \<Rightarrow> None
      | Some (v, r) \<Rightarrow>
          if v = JNull \<and> r = [] \<and> maxRequestBytes < length body then None
          else decode_struct request_field \<lparr>rq_Steps = nil_slice\<rparr> v)"

section \<open>Responses\<close>

record response =
  rs_Status :: int
  rs_Header :: "(string \<times> string) list"
  rs_Body :: string

definition StatusOK :: int where "StatusOK = 200"
definition StatusAccepted :: int where "StatusAccepted = 202"
definition StatusBadRequest :: int where "StatusBadRequest = 400"
definition StatusNotFound :: int where "StatusNotFound = 404"
definition StatusInternalServerError :: int where "StatusInternalServerError = 500"
definition StatusBadGateway :: int where "StatusBadGateway = 502"

lemmas http_status = StatusOK_def StatusAccepted_def StatusBadRequest_def StatusNotFound_def
  StatusInternalServerError_def StatusBadGateway_def

definition writeJSON :: "int \<Rightarrow> json \<Rightarrow> response" where
  "writeJSON status v =
     \<lparr>rs_Status = status, rs_Header = [(''Content-Type'', ''application/json'')],
      rs_Body = encode_json v @ [CHR 0x0A]\<rparr>"

definition writeError :: "int \<Rightarrow> string \<Rightarrow> response" where
  "writeError status message = writeJSON status (JObject [(''error'', JString message)])"

subsection \<open>The values that are encoded\<close>

text \<open>
  A nil slice is encoded as \<open>null\<close>. None of these slices is empty and not nil. \<open>rfc3339\<close> is
  the text of a time in the time zone of the process.
\<close>

definition json_list :: "('e \<Rightarrow> json) \<Rightarrow> 'e list \<Rightarrow> json" where
  "json_list f xs = (if xs = [] then JNull else JArray (map f xs))"

definition omitempty :: "string \<Rightarrow> string \<Rightarrow> (string \<times> json) list" where
  "omitempty k s = (if s = [] then [] else [(k, JString s)])"

definition status_text :: "status \<Rightarrow> string" where
  "status_text st =
     (case st of Pending \<Rightarrow> ''pending'' | Running \<Rightarrow> ''running'' | Succeeded \<Rightarrow> ''succeeded''
      | Failed \<Rightarrow> ''failed'' | Retrying \<Rightarrow> ''retrying'' | Skipped \<Rightarrow> ''skipped'')"

definition result_json :: "step_result \<Rightarrow> json" where
  "result_json r = JObject
     ([(''id'', JString (result_ID r)), (''status'', JString (status_text (result_Status r))),
       (''attempts'', JNumber (result_Attempts r))] @
      omitempty ''output'' (result_Output r) @ omitempty ''error'' (result_Error r))"

definition step_json :: "job_step \<Rightarrow> json" where
  "step_json s = JObject
     ([(''id'', JString (js_ID s)), (''agent'', JString (js_Agent s)), (''prompt'', JString (js_Prompt s))] @
      (if js_DependsOn s = [] then [] else [(''depends_on'', JArray (map JString (js_DependsOn s)))]))"

definition run_response :: "step_result list \<Rightarrow> json" where
  "run_response results = JObject [(''steps'', json_list result_json results)]"

definition job_json :: "(int \<Rightarrow> string) \<Rightarrow> job \<Rightarrow> json" where
  "job_json rfc3339 job =
     (let moment = (\<lambda>k t. case t of None \<Rightarrow> [] | Some ns \<Rightarrow> [(k, JString (rfc3339 ns))])
      in JObject
        ([(''id'', JString (job_ID job)), (''status'', JString (status_text (job_Status job))),
          (''attempts'', JNumber (job_Attempts job))] @
         omitempty ''owner'' (job_Owner job) @ omitempty ''error'' (job_Error job) @
         [(''created_at'', JString (rfc3339 (job_CreatedAt job)))] @
         moment ''started_at'' (job_StartedAt job) @ moment ''finished_at'' (job_FinishedAt job) @
         moment ''lease_expires_at'' (job_LeaseExpiresAt job) @
         [(''steps'', json_list step_json (job_Steps job)), (''results'', json_list result_json (job_Results job))]))"

definition worker_json :: "(int \<Rightarrow> string) \<Rightarrow> worker_info \<Rightarrow> json" where
  "worker_json rfc3339 w = JObject
     [(''id'', JString (wi_ID w)), (''hostname'', JString (wi_Hostname w)), (''pid'', JNumber (wi_PID w)),
      (''queue'', JString (wi_Queue w)), (''started_at'', JString (rfc3339 (wi_StartedAt w))),
      (''last_heartbeat_at'', JString (rfc3339 (wi_LastBeatAt w))), (''jobs_claimed'', JNumber (wi_JobsClaimed w))]"

definition stats_json :: "(int \<Rightarrow> string) \<Rightarrow> stats \<Rightarrow> json" where
  "stats_json rfc3339 s = JObject
     [(''queue_ready'', JNumber (QueueReady s)), (''queue_in_flight'', JNumber (QueueInFlight s)),
      (''workers'', json_list (worker_json rfc3339) (Workers s))]"

section \<open>POST /v1/workflows/run\<close>

definition Resolve :: "(string \<rightharpoonup> 'a) \<Rightarrow> string \<Rightarrow> 'a option" where
  "Resolve registry name = registry name"

fun resolve_requests :: "(string \<Rightarrow> 'a option) \<Rightarrow> step_request list \<Rightarrow> string + 'a step list" where
  "resolve_requests agents [] = Inr []"
| "resolve_requests agents (input # inputs) =
     (case agents (sr_Agent input) of
        None \<Rightarrow> Inl (''unknown agent: '' @ sr_Agent input)
      | Some agent \<Rightarrow>
          (case resolve_requests agents inputs of
             Inl e \<Rightarrow> Inl e
           | Inr rest \<Rightarrow> Inr (\<lparr>step_ID = sr_ID input, step_Agent = Some agent, step_Prompt = sr_Prompt input,
                               step_DependsOn = contents (sr_DependsOn input)\<rparr> # rest)))"

text \<open>
  The run inside a request: agents are called directly, there is no observer, and the wait
  between two attempts ends early when the request is gone. \<open>NewWorkflow\<close> has refused steps
  without an agent.
\<close>

definition request_sleep :: "('a, 'w) env \<Rightarrow> int \<Rightarrow> 'w \<Rightarrow> gerror option \<times> 'w" where
  "request_sleep env d w =
     (let (fired, w1) = en_timer env d w
      in case en_done env w1 of
           None \<Rightarrow> (None, w1)
         | Some (err, _) \<Rightarrow> (if fired then None else Some err, w1))"

definition request_runtime :: "('a, 'w) env \<Rightarrow> ('a, 'w) runtime" where
  "request_runtime env =
     \<lparr>rt_call = (\<lambda>agent prompt w. case agent of
          None \<Rightarrow> (Inl (Sentinel ''panic: nil agent''), w)
        | Some a \<Rightarrow> en_run env a prompt w),
      rt_sleep = request_sleep env, rt_notify = (\<lambda>r w. w),
      rt_range = en_range env, rt_arrival = en_arrival env\<rparr>"

text \<open>
  \<open>Run\<close> returns no error but \<open>*WorkflowError\<close>, so the answer 500 after \<open>errors.As\<close> is never
  given.
\<close>

definition runHandler ::
  "('a, 'w) env \<Rightarrow> (string \<Rightarrow> 'a option) \<Rightarrow> options \<Rightarrow> string \<Rightarrow> 'w \<Rightarrow> response \<times> 'w" where
  "runHandler env agents opts body w =
     (case decodeRunRequest body of
        None \<Rightarrow> (writeError StatusBadRequest ''invalid JSON request'', w)
      | Some request \<Rightarrow>
          (case resolve_requests agents (contents (rq_Steps request)) of
             Inl message \<Rightarrow> (writeError StatusBadRequest message, w)
           | Inr steps \<Rightarrow>
               (case NewWorkflow (en_range env) steps
                       \<lparr>MaxRetries = MaxRetries opts, RetryDelay = RetryDelay opts, Resume = []\<rparr> of
                  Inl e \<Rightarrow> (writeError StatusBadRequest (error_text (graph_gerror e)), w)
                | Inr plan \<Rightarrow>
                    (case Run (request_runtime env) plan w of
                       ((results, Some e), w1) \<Rightarrow> (writeJSON StatusBadGateway (run_response results), w1)
                     | ((results, None), w1) \<Rightarrow> (writeJSON StatusOK (run_response results), w1)))))"

section \<open>The job routes\<close>

definition job_steps_of :: "run_request \<Rightarrow> job_step list" where
  "job_steps_of request =
     map (\<lambda>s. \<lparr>js_ID = sr_ID s, js_Agent = sr_Agent s, js_Prompt = sr_Prompt s,
               js_DependsOn = contents (sr_DependsOn s)\<rparr>) (contents (rq_Steps request))"

definition submitJobHandler ::
  "('a, 'w) env \<Rightarrow> ('a, 'w) service \<Rightarrow> (int \<Rightarrow> string) \<Rightarrow> string \<Rightarrow> 'w \<Rightarrow> response \<times> 'w" where
  "submitJobHandler env sv rfc3339 body w =
     (case decodeRunRequest body of
        None \<Rightarrow> (writeError StatusBadRequest ''invalid JSON request'', w)
      | Some request \<Rightarrow>
          (case Submit env sv (job_steps_of request) w of
             (Inl e, w1) \<Rightarrow> (writeError StatusBadRequest (error_text e), w1)
           | (Inr job, w1) \<Rightarrow> (writeJSON StatusAccepted (job_json rfc3339 job), w1)))"

definition getJobHandler ::
  "('a, 'w) service \<Rightarrow> (int \<Rightarrow> string) \<Rightarrow> string \<Rightarrow> 'w \<Rightarrow> response \<times> 'w" where
  "getJobHandler sv rfc3339 j w =
     (case Service_Get sv j w of
        (Inl e, w1) \<Rightarrow> (writeError StatusInternalServerError (error_text e), w1)
      | (Inr None, w1) \<Rightarrow> (writeError StatusNotFound ''job not found'', w1)
      | (Inr (Some job), w1) \<Rightarrow> (writeJSON StatusOK (job_json rfc3339 job), w1))"

definition clusterHandler :: "('a, 'w) service \<Rightarrow> (int \<Rightarrow> string) \<Rightarrow> 'w \<Rightarrow> response \<times> 'w" where
  "clusterHandler sv rfc3339 w =
     (case Stats sv w of
        (Inl e, w1) \<Rightarrow> (writeError StatusInternalServerError (error_text e), w1)
      | (Inr stats, w1) \<Rightarrow> (writeJSON StatusOK (stats_json rfc3339 stats), w1))"

section \<open>The event stream\<close>

text \<open>\<open>strconv.ParseInt(s, 10, 64)\<close>: an optional sign and at least one decimal digit.\<close>

fun digits_value :: "nat \<Rightarrow> string \<Rightarrow> nat option" where
  "digits_value acc [] = Some acc"
| "digits_value acc (c # s) =
     (if CHR ''0'' \<le> c \<and> c \<le> CHR ''9'' then digits_value (10 * acc + (byte c - 48)) s else None)"

definition ParseInt :: "string \<Rightarrow> int option" where
  "ParseInt s =
     (let (negative, digits) =
            (case s of c # r \<Rightarrow> if c = CHR ''-'' then (True, r) else if c = CHR ''+'' then (False, r) else (False, s)
             | [] \<Rightarrow> (False, s))
      in if digits = [] then None
         else case digits_value 0 digits of
           None \<Rightarrow> None
         | Some n \<Rightarrow>
             (let i = (if negative then - int n else int n) in if in_int64 i then Some i else None))"

text \<open>The position of a reader: \<open>None\<close> is an invalid header. An absent header is empty.\<close>

definition resume_position :: "string \<Rightarrow> int option" where
  "resume_position header =
     (if header = [] then Some 0
      else case ParseInt header of None \<Rightarrow> None | Some n \<Rightarrow> if n < 0 then None else Some n)"

definition pollInterval :: int where
  "pollInterval = 500 * millisecond"

text \<open>\<open>raw_json\<close> is the text of an event's data as the database returns it.\<close>

definition event_frame :: "(payload \<Rightarrow> string) \<Rightarrow> event \<Rightarrow> string" where
  "event_frame raw_json e =
     ''id: '' @ itoa (ev_ID e) @ [CHR 0x0A] @ ''event: '' @ ev_Type e @ [CHR 0x0A] @
     ''data: '' @ raw_json (ev_Data e) @ [CHR 0x0A, CHR 0x0A]"

text \<open>
  The polling loop, with a bound on its iterations: the events sent so far, and whether the
  handler returned.
\<close>

fun event_loop ::
  "('a, 'w) env \<Rightarrow> ('a, 'w) service \<Rightarrow> string \<Rightarrow> nat \<Rightarrow> int \<Rightarrow> event list \<Rightarrow> 'w \<Rightarrow> (bool \<times> event list) \<times> 'w" where
  "event_loop env sv j 0 after sent w = ((False, sent), w)"
| "event_loop env sv j (Suc n) after sent w =
     (case Service_Events sv j after w of
        (Inl e, w1) \<Rightarrow> ((True, sent), w1)
      | (Inr events, w1) \<Rightarrow>
          (let after1 = (if events = [] then after else ev_ID (last events)); sent1 = sent @ events
           in if list_ex (\<lambda>e. IsTerminal (ev_Type e)) events then ((True, sent1), w1)
              else
                (let (fired, w2) = en_timer env pollInterval w1
                 in case (fired, en_done env w2) of
                      (False, Some _) \<Rightarrow> ((True, sent1), w2)
                    | _ \<Rightarrow> event_loop env sv j n after1 sent1 w2)))"

definition eventsHandler ::
  "('a, 'w) env \<Rightarrow> ('a, 'w) service \<Rightarrow> (payload \<Rightarrow> string) \<Rightarrow> bool \<Rightarrow> nat \<Rightarrow> string \<Rightarrow> string \<Rightarrow> 'w
   \<Rightarrow> (bool \<times> response) \<times> 'w" where
  "eventsHandler env sv raw_json can_flush n j last_event_id w =
     (case Service_Get sv j w of
        (Inl e, w1) \<Rightarrow> ((True, writeError StatusInternalServerError (error_text e)), w1)
      | (Inr None, w1) \<Rightarrow> ((True, writeError StatusNotFound ''job not found''), w1)
      | (Inr (Some job), w1) \<Rightarrow>
          if \<not> can_flush then ((True, writeError StatusInternalServerError ''streaming unsupported''), w1)
          else case resume_position last_event_id of
            None \<Rightarrow> ((True, writeError StatusBadRequest ''invalid Last-Event-ID''), w1)
          | Some after \<Rightarrow>
              (case event_loop env sv j n after [] w1 of
                 ((closed, sent), w2) \<Rightarrow>
                   ((closed, \<lparr>rs_Status = StatusOK,
                       rs_Header = [(''Content-Type'', ''text/event-stream''), (''Cache-Control'', ''no-cache''),
                                    (''Connection'', ''keep-alive'')],
                       rs_Body = concat (map (event_frame raw_json) sent)\<rparr>), w2)))"

section \<open>Routes\<close>

text \<open>The handlers in the table; those of the job routes hold the service.\<close>

datatype 's route = Healthz | RunWorkflow | SubmitJob 's | GetJob 's | JobEvents 's | Cluster 's

definition NewRouterWithJobs :: "'s option \<Rightarrow> (string \<times> string \<times> 's route) list" where
  "NewRouterWithJobs service =
     [(''GET'', ''/healthz'', Healthz), (''POST'', ''/v1/workflows/run'', RunWorkflow)] @
     (case service of
        None \<Rightarrow> []
      | Some sv \<Rightarrow>
          [(''POST'', ''/v1/jobs'', SubmitJob sv), (''GET'', ''/v1/jobs/{id}'', GetJob sv),
           (''GET'', ''/v1/jobs/{id}/events'', JobEvents sv), (''GET'', ''/v1/cluster'', Cluster sv)])"

definition NewRouter :: "(string \<times> string \<times> 's route) list" where
  "NewRouter = NewRouterWithJobs None"

record request =
  http_Method :: string
  http_Path :: string
  http_LastEventID :: string
  http_Body :: string

record http_texts =
  ht_rfc3339 :: "int \<Rightarrow> string"
  ht_raw_json :: "payload \<Rightarrow> string"

text \<open>
  A handler with the value of its parameter. The flag tells whether it returned within \<open>n\<close> polls
  of the event stream.
\<close>

definition handle ::
  "('a, 'w) env \<Rightarrow> (string \<Rightarrow> 'a option) \<Rightarrow> options \<Rightarrow> http_texts \<Rightarrow> bool \<Rightarrow> nat \<Rightarrow> ('a, 'w) service route
   \<Rightarrow> string \<Rightarrow> request \<Rightarrow> 'w \<Rightarrow> (bool \<times> response) \<times> 'w" where
  "handle env agents opts texts can_flush n route j rq w =
     (let returns = (\<lambda>(r, w1). ((True, r), w1))
      in case route of
           Healthz \<Rightarrow> ((True, writeJSON StatusOK (JObject [(''status'', JString ''ok'')])), w)
         | RunWorkflow \<Rightarrow> returns (runHandler env agents opts (http_Body rq) w)
         | SubmitJob sv \<Rightarrow> returns (submitJobHandler env sv (ht_rfc3339 texts) (http_Body rq) w)
         | GetJob sv \<Rightarrow> returns (getJobHandler sv (ht_rfc3339 texts) j w)
         | JobEvents sv \<Rightarrow> eventsHandler env sv (ht_raw_json texts) can_flush n j (http_LastEventID rq) w
         | Cluster sv \<Rightarrow> returns (clusterHandler sv (ht_rfc3339 texts) w))"

text \<open>
  \<open>find_route\<close> is the router package: the handler of a request with the value of its
  parameter, or the response to a request that no route matches.
\<close>

definition serve ::
  "('a, 'w) env \<Rightarrow> (string \<Rightarrow> 'a option) \<Rightarrow> options \<Rightarrow> ('a, 'w) service option \<Rightarrow> http_texts
   \<Rightarrow> ((string \<times> string \<times> ('a, 'w) service route) list \<Rightarrow> string \<Rightarrow> string
       \<Rightarrow> response + ('a, 'w) service route \<times> string)
   \<Rightarrow> bool \<Rightarrow> nat \<Rightarrow> request \<Rightarrow> 'w \<Rightarrow> (bool \<times> response) \<times> 'w" where
  "serve env agents opts service texts find_route can_flush n rq w =
     (case find_route (NewRouterWithJobs service) (http_Method rq) (http_Path rq) of
        Inl missing \<Rightarrow> ((True, missing), w)
      | Inr (route, j) \<Rightarrow> handle env agents opts texts can_flush n route j rq w)"

end
