(* ===== verification/Json_Roundtrip.thy ===== *)
theory Json_Roundtrip
  imports Json_Codec
begin

text \<open>
  The scanner reads back what the encoder writes: strings of valid UTF-8 with every escape the
  encoder uses, and values built from them by arrays and objects.
\<close>

section \<open>Strings\<close>

lemma byte_less [simp]: "byte c < 256"
  by (simp add: byte_def)

lemma char_of_byte [simp]: "char_of (byte c) = c"
  by (simp add: byte_def)

lemma char_of_iff: "char_of n = c \<longleftrightarrow> n mod 256 = byte c"
  by (simp add: char_of_eq_iff byte_def take_bit_eq_mod)

lemma hex_value_digit: "n < 16 \<Longrightarrow> hex_value (hex_digit n) = Some n"
proof -
  assume "n < 16"
  then have "n \<in> set [0..<16]" by simp
  moreover have "\<forall>k\<in>set [0..<16]. hex_value (hex_digit k) = Some k" by code_simp
  ultimately show ?thesis by blast
qed

lemma read_escape_ascii:
  assumes "byte c < 128"
  shows "escape_ascii c = [c] \<and> c \<noteq> CHR 0x22 \<and> c \<noteq> CHR 0x5C \<and> \<not> byte c < 32 \<or>
    (\<exists>e. escape_ascii c = CHR 0x5C # e \<and> (\<forall>r. read_escape (e @ r) = Some ([c], r)))"
proof (cases "c \<in> {CHR 0x22, CHR 0x5C, CHR 0x08, CHR 0x0C, CHR 0x0A, CHR 0x0D, CHR 0x09}")
  case True
  then show ?thesis by (auto simp: escape_ascii_def read_escape_def)
next
  case False
  show ?thesis
  proof (cases "byte c < 32 \<or> c = CHR ''<'' \<or> c = CHR ''>'' \<or> c = CHR ''&''")
    case True
    have "hex_value (hex_digit (byte c div 16)) = Some (byte c div 16)"
      "hex_value (hex_digit (byte c mod 16)) = Some (byte c mod 16)"
      using assms by (simp_all add: hex_value_digit)
    moreover have "hex_value CHR ''0'' = Some 0" by code_simp
    ultimately have "hex4 (''00'' @ hex_digit (byte c div 16) # hex_digit (byte c mod 16) # r) = Some (byte c, r)" for r
      by simp
    then have "read_escape (''u00'' @ hex_digit (byte c div 16) # hex_digit (byte c mod 16) # r) = Some ([c], r)" for r
      using assms by (simp add: read_escape_def read_unicode_def utf8_encode_def)
    with True False show ?thesis by (auto simp: escape_ascii_def)
  next
    case plain: False
    with False show ?thesis by (simp add: escape_ascii_def)
  qed
qed

lemma read_ascii:
  assumes "byte c < 128"
  shows "read_string (escape_ascii c @ r) = prepend [c] (read_string r)"
  using read_escape_ascii [OF assms] assms
  by (auto simp: read_string.simps(2) byte_def)

text \<open>The two wide characters that are escaped, and the others.\<close>

lemma read_separator:
  "read_string (CHR 0x5C # ''u2028'' @ r) = prepend [CHR 0xE2, CHR 0x80, CHR 0xA8] (read_string r)"
  "read_string (CHR 0x5C # ''u2029'' @ r) = prepend [CHR 0xE2, CHR 0x80, CHR 0xA9] (read_string r)"
proof -
  have digits: "hex_value CHR ''0'' = Some 0" "hex_value CHR ''2'' = Some 2" "hex_value CHR ''8'' = Some 8"
    "hex_value CHR ''9'' = Some 9" by code_simp+
  have wide: "hex4 (''2028'' @ r) = Some (8232, r)" "hex4 (''2029'' @ r) = Some (8233, r)"
    by (simp_all add: digits)
  have code: "utf8_encode 8232 = [CHR 0xE2, CHR 0x80, CHR 0xA8]" "utf8_encode 8233 = [CHR 0xE2, CHR 0x80, CHR 0xA9]"
    by (simp_all add: utf8_encode_def char_of_iff byte_def)
  have "read_escape (''u2028'' @ r) = Some ([CHR 0xE2, CHR 0x80, CHR 0xA8], r)"
    "read_escape (''u2029'' @ r) = Some ([CHR 0xE2, CHR 0x80, CHR 0xA9], r)"
    using wide by (simp_all add: read_escape_def read_unicode_def code)
  then show "read_string (CHR 0x5C # ''u2028'' @ r) = prepend [CHR 0xE2, CHR 0x80, CHR 0xA8] (read_string r)"
    "read_string (CHR 0x5C # ''u2029'' @ r) = prepend [CHR 0xE2, CHR 0x80, CHR 0xA9] (read_string r)"
    by (simp_all add: read_string.simps(2) [of "CHR 0x5C"] byte_def)
qed

lemma read_wide:
  assumes "\<not> byte c < 128" and n: "n = utf8_len (c # s)" "0 < n"
  shows "read_string (escape_wide (take n (c # s)) @ r) = prepend (take n (c # s)) (read_string r)"
proof (cases "take n (c # s) \<in> {[CHR 0xE2, CHR 0x80, CHR 0xA8], [CHR 0xE2, CHR 0x80, CHR 0xA9]}")
  case True
  then show ?thesis using read_separator by (auto simp: escape_wide_def simp del: take_Suc_Cons)
next
  case False
  obtain m where m: "n = Suc m" using n(2) by (cases n) auto
  have len: "utf8_len (take n (c # s) @ r) = n" using utf8_len_take [of "c # s" r] n by simp
  have le: "n \<le> length (c # s)" using utf8_len_le [of "c # s"] n by simp
  then have ms: "m \<le> length s" by (simp add: m)
  have "take n (take n (c # s) @ r) = take n (c # s)" "drop n (take n (c # s) @ r) = r" using le by simp_all
  moreover have "c \<noteq> CHR 0x22" "c \<noteq> CHR 0x5C" "\<not> byte c < 32" using assms(1) by (auto simp: byte_def)
  moreover have "escape_wide (take n (c # s)) = take n (c # s)"
    using False unfolding escape_wide_def by (metis insertCI)
  ultimately show ?thesis
    using len assms(1) n(2) ms by (simp add: m read_string.simps(2))
qed

lemma prepend_Some [simp]: "prepend t (Some (u, r)) = Some (t @ u, r)"
  by (simp add: prepend_def)

lemma read_quoted: "utf8_valid s \<Longrightarrow> read_string (escape s @ CHR 0x22 # r) = Some (s, r)"
proof (induction s rule: utf8_valid.induct)
  case (1 s)
  show ?case
  proof (cases s)
    case Nil
    then show ?thesis by (simp add: read_string.simps(2))
  next
    case (Cons c s')
    let ?n = "utf8_len s"
    have n: "0 < ?n" and valid: "utf8_valid (drop ?n s)"
      using "1.prems" [unfolded utf8_valid.simps [of s]] Cons by (simp_all split: if_splits)
    have IH: "read_string (escape (drop ?n s) @ CHR 0x22 # r) = Some (drop ?n s, r)"
      using "1.IH" valid n Cons by simp
    show ?thesis
    proof (cases "byte c < 128")
      case True
      then have "?n = 1" by (simp add: Cons utf8_len.simps(2))
      with IH True show ?thesis by (simp add: Cons escape.simps(2) read_ascii)
    next
      case False
      then have "escape s = escape_wide (take ?n s) @ escape (drop ?n s)"
        using n by (simp add: Cons escape.simps(2))
      then have "read_string (escape s @ CHR 0x22 # r) =
          read_string (escape_wide (take ?n s) @ (escape (drop ?n s) @ CHR 0x22 # r))" by simp
      also have "\<dots> = prepend (take ?n s) (read_string (escape (drop ?n s) @ CHR 0x22 # r))"
        using read_wide [OF False refl] n unfolding Cons by blast
      finally show ?thesis using IH by simp
    qed
  qed
qed

section \<open>Values\<close>

fun textual :: "json \<Rightarrow> bool" where
  "textual JNull = True"
| "textual (JBool b) = False"
| "textual (JNumber n) = False"
| "textual (JString s) = utf8_valid s"
| "textual (JArray vs) = list_all textual vs"
| "textual (JObject kvs) = list_all (\<lambda>(k, v). utf8_valid k \<and> textual v) kvs"

lemma skip_space_solid [simp]:
  "skip_space (CHR 0x22 # s) = CHR 0x22 # s" "skip_space (CHR 0x5B # s) = CHR 0x5B # s"
  "skip_space (CHR 0x5D # s) = CHR 0x5D # s" "skip_space (CHR 0x7B # s) = CHR 0x7B # s"
  "skip_space (CHR 0x7D # s) = CHR 0x7D # s" "skip_space (CHR 0x2C # s) = CHR 0x2C # s"
  "skip_space (CHR 0x3A # s) = CHR 0x3A # s" "skip_space (CHR ''n'' # s) = CHR ''n'' # s"
  by (simp_all add: skip_space_def)

text \<open>The first byte of an encoded value is never a closing bracket.\<close>

lemma encode_starts:
  "textual v \<Longrightarrow> \<exists>c s. encode_json v = c # s \<and> c \<in> {CHR ''n'', CHR 0x22, CHR 0x5B, CHR 0x7B}"
  by (cases v) (simp_all add: quoted_def)

lemma commas_Cons: "commas (x # xs) = x @ (if xs = [] then [] else CHR 0x2C # commas xs)"
  by (cases xs) simp_all

lemma parse_encode_lists:
  assumes IH: "\<And>v n r. v \<in> set vs \<Longrightarrow> textual v \<Longrightarrow> length (encode_json v) \<le> n \<Longrightarrow>
      parse_value (Suc n) (encode_json v @ r) = Some (v, r)"
    and "list_all textual vs" "vs \<noteq> []" "length (commas (map encode_json vs)) < n"
  shows "parse_elements (Suc n) (commas (map encode_json vs) @ CHR 0x5D # r) = Some (vs, r)"
  using assms
proof (induction vs arbitrary: n)
  case (Cons v vs)
  obtain m where m: "n = Suc m" "length (encode_json v) \<le> m" using Cons.prems(4) by (cases n) (auto simp: commas_Cons)
  show ?case
  proof (cases "vs = []")
    case True
    with Cons.prems m Cons.prems(1) [of v m] show ?thesis by (simp add: parse_elements.simps(2))
  next
    case False
    have "parse_elements (Suc m) (commas (map encode_json vs) @ CHR 0x5D # r) = Some (vs, r)"
      by (rule Cons.IH) (use Cons.prems False m in \<open>auto simp: commas_Cons\<close>)
    moreover have "parse_value (Suc m) (encode_json v @ s) = Some (v, s)" for s
      using Cons.prems(1,2) m(2) by simp
    ultimately show ?thesis using False m(1) by (simp add: commas_Cons parse_elements.simps(2))
  qed
qed simp

lemma parse_encode_members:
  assumes IH: "\<And>k v n r. (k, v) \<in> set kvs \<Longrightarrow> textual v \<Longrightarrow> length (encode_json v) \<le> n \<Longrightarrow>
      parse_value (Suc n) (encode_json v @ r) = Some (v, r)"
    and "list_all (\<lambda>(k, v). utf8_valid k \<and> textual v) kvs" "kvs \<noteq> []"
    and "length (commas (map (\<lambda>(k, v). quoted k @ CHR 0x3A # encode_json v) kvs)) < n"
  shows "parse_members (Suc n) (commas (map (\<lambda>(k, v). quoted k @ CHR 0x3A # encode_json v) kvs) @ CHR 0x7D # r) =
    Some (kvs, r)"
  using assms
proof (induction kvs arbitrary: n)
  case (Cons kv kvs)
  obtain k v where kv: "kv = (k, v)" by (metis prod.exhaust)
  obtain m where m: "n = Suc m" "length (encode_json v) \<le> m"
    using Cons.prems(4) by (cases n) (auto simp: commas_Cons kv)
  have valid: "utf8_valid k" "textual v" using Cons.prems(2) by (simp_all add: kv)
  have one: "parse_value (Suc m) (encode_json v @ s) = Some (v, s)" for s
    using Cons.prems(1) [of k v m s] valid m(2) by (simp add: kv)
  show ?case
  proof (cases "kvs = []")
    case True
    with m(1) one show ?thesis by (simp add: kv quoted_def parse_members.simps(2) read_quoted valid)
  next
    case False
    have "parse_members (Suc m) (commas (map (\<lambda>(k, v). quoted k @ CHR 0x3A # encode_json v) kvs) @ CHR 0x7D # r) =
        Some (kvs, r)"
      by (rule Cons.IH) (use Cons.prems False m in \<open>auto simp: commas_Cons kv\<close>)
    with False m(1) one show ?thesis
      by (simp add: commas_Cons kv quoted_def parse_members.simps(2) read_quoted valid)
  qed
qed simp

lemma parse_encode:
  "textual v \<Longrightarrow> length (encode_json v) \<le> n \<Longrightarrow> parse_value (Suc n) (encode_json v @ r) = Some (v, r)"
proof (induction v arbitrary: n r rule: encode_json.induct)
  case (5 vs)
  show ?case
  proof (cases "vs = []")
    case False
    obtain m where m: "n = Suc m" "length (commas (map encode_json vs)) < m"
      using "5.prems"(2) by (cases n) auto
    have els: "parse_elements (Suc m) (commas (map encode_json vs) @ CHR 0x5D # r) = Some (vs, r)"
      by (rule parse_encode_lists) (use "5.IH" "5.prems"(1) False m in auto)
    obtain v vs' where vs: "vs = v # vs'" using False by (cases vs) auto
    obtain c s where c: "encode_json v = c # s" "c \<in> {CHR ''n'', CHR 0x22, CHR 0x5B, CHR 0x7B}"
      using encode_starts [of v] "5.prems"(1) vs by auto
    then have "strip_prefix [CHR 0x5D] (skip_space (commas (map encode_json vs) @ CHR 0x5D # r)) = None"
      by (auto simp: vs commas_Cons)
    with els m show ?thesis by (simp add: parse_value.simps(2))
  qed (simp add: parse_value.simps(2))
next
  case (6 kvs)
  let ?body = "commas (map (\<lambda>(k, v). quoted k @ CHR 0x3A # encode_json v) kvs)"
  show ?case
  proof (cases "kvs = []")
    case False
    obtain m where m: "n = Suc m" "length ?body < m" using "6.prems"(2) by (cases n) auto
    have els: "parse_members (Suc m) (?body @ CHR 0x7D # r) = Some (kvs, r)"
      by (rule parse_encode_members) (use "6.IH" "6.prems"(1) False m in auto)
    obtain k v kvs' where "kvs = (k, v) # kvs'" using False by (cases kvs) auto
    then have "strip_prefix [CHR 0x7D] (skip_space (?body @ CHR 0x7D # r)) = None"
      by (auto simp: commas_Cons quoted_def)
    with els m show ?thesis by (simp add: parse_value.simps(2))
  qed (simp add: parse_value.simps(2))
qed (simp_all add: parse_value.simps(2) quoted_def read_quoted)

lemma parse_json_encode: "textual v \<Longrightarrow> parse_json (encode_json v @ r) = Some (v, r)"
  unfolding parse_json_def by (rule parse_encode) simp_all

end
