(* ===== verification/Http_Requests.thy ===== *)
theory Http_Requests
  imports Http_Api Json_Roundtrip Workflow_Properties
begin

text \<open>
  Properties of the request side of the HTTP API: a submission decodes to what was sent, and
  the synchronous endpoint answers for every workflow.
\<close>

section \<open>A submission and its decoding\<close>

text \<open>A submission as a client of the same structs encodes it.\<close>

definition submission :: "job_step list \<Rightarrow> json" where
  "submission ss = JObject [(''steps'', json_list step_json ss)]"

definition decoded_step :: "job_step \<Rightarrow> step_request" where
  "decoded_step s = \<lparr>sr_ID = js_ID s, sr_Agent = js_Agent s, sr_Prompt = js_Prompt s,
     sr_DependsOn = (js_DependsOn s, length (js_DependsOn s))\<rparr>"

definition sendable :: "job_step list \<Rightarrow> bool" where
  "sendable ss \<longleftrightarrow> list_all (\<lambda>s. utf8_valid (js_ID s) \<and> utf8_valid (js_Agent s) \<and> utf8_valid (js_Prompt s) \<and>
     list_all utf8_valid (js_DependsOn s)) ss"

lemma field_names [simp]:
  "fold_name ''id'' = ''id''" "fold_name ''agent'' = ''agent''" "fold_name ''prompt'' = ''prompt''"
  "fold_name ''depends_on'' = ''depends_on''" "fold_name ''steps'' = ''steps''"
  by code_simp+

lemma names_valid [simp]:
  "utf8_valid ''id''" "utf8_valid ''agent''" "utf8_valid ''prompt''" "utf8_valid ''depends_on''" "utf8_valid ''steps''"
  by code_simp+

lemma decode_elements_fresh:
  "(\<And>x. x \<in> set xs \<Longrightarrow> dec zero (f x) = Some (g x)) \<Longrightarrow>
   decode_elements dec zero [] (map f xs) = Some (map g xs)"
  by (induction xs) simp_all

lemma decode_step_json: "decode_struct step_field no_step (step_json s) = Some (decoded_step s)"
proof -
  have deps: "decode_elements decode_string [] [] (map JString ds) = Some (map (\<lambda>d. d) ds)" for ds
    by (rule decode_elements_fresh) (simp add: decode_string_def)
  show ?thesis
    using deps [of "js_DependsOn s"]
    by (simp add: decode_struct_def step_json_def step_field_def decode_string_def no_step_def decoded_step_def
        decode_slice_def nil_slice_def)
qed

lemma decode_submission:
  "decode_struct request_field \<lparr>rq_Steps = nil_slice\<rparr> (submission ss) =
   Some \<lparr>rq_Steps = (map decoded_step ss, length ss)\<rparr>"
proof -
  have "decode_elements (decode_struct step_field) no_step [] (map step_json ss) = Some (map decoded_step ss)"
    by (rule decode_elements_fresh) (rule decode_step_json)
  then show ?thesis
    by (simp add: decode_struct_def submission_def request_field_def decode_slice_def json_list_def nil_slice_def)
qed

lemma textual_submission: "sendable ss \<Longrightarrow> textual (submission ss)"
  by (auto simp: sendable_def submission_def json_list_def step_json_def list_all_iff)

lemma decodeRunRequest_submission:
  assumes "sendable ss" and "length (encode_json (submission ss)) \<le> maxRequestBytes"
  shows "decodeRunRequest (encode_json (submission ss) @ trailing) =
    Some \<lparr>rq_Steps = (map decoded_step ss, length ss)\<rparr>"
proof -
  let ?e = "encode_json (submission ss)"
  have "take maxRequestBytes (?e @ trailing) = ?e @ take (maxRequestBytes - length ?e) trailing"
    using assms(2) by simp
  then have "parse_json (take maxRequestBytes (?e @ trailing)) =
      Some (submission ss, take (maxRequestBytes - length ?e) trailing)"
    using parse_json_encode [OF textual_submission [OF assms(1)]] by simp
  moreover have "submission ss \<noteq> JNull" by (simp add: submission_def)
  ultimately show ?thesis by (simp add: decodeRunRequest_def decode_submission)
qed

text \<open>
  C23: a submission arrives as it was sent. A workflow of valid UTF-8 text that is encoded with
  the tags of the API in at most 1 MiB decodes to exactly its steps, in order, with their
  agents, prompts and dependencies, whatever follows it in the body.
\<close>

theorem submission_roundtrip:
  assumes "sendable ss" and "length (encode_json (submission ss)) \<le> maxRequestBytes"
  shows "\<exists>request. decodeRunRequest (encode_json (submission ss) @ trailing) = Some request \<and> job_steps_of request = ss"
proof -
  have "job_steps_of \<lparr>rq_Steps = (map decoded_step ss, length ss)\<rparr> = ss"
    unfolding job_steps_of_def by (simp add: contents_def decoded_step_def comp_def) (rule map_idI, simp)
  with decodeRunRequest_submission [OF assms] show ?thesis by blast
qed

definition demo_submission :: "job_step list" where
  "demo_submission =
     [\<lparr>js_ID = ''a'', js_Agent = ''x'', js_Prompt = ''say \"hi\" & <bye>'' @ [CHR 0x0A, CHR 0xC3, CHR 0xA9], js_DependsOn = []\<rparr>,
      \<lparr>js_ID = ''b'', js_Agent = ''x'', js_Prompt = ''{{steps.a.output}}'', js_DependsOn = [''a'']\<rparr>]"

theorem submission_roundtrip_witness:
  "\<exists>request. decodeRunRequest (encode_json (submission demo_submission) @ ''trailing'') = Some request \<and>
     job_steps_of request = demo_submission"
proof (rule submission_roundtrip)
  show "sendable demo_submission" by code_simp
  have "length (encode_json (submission demo_submission)) \<le> 200" by code_simp
  then show "length (encode_json (submission demo_submission)) \<le> maxRequestBytes"
    by (simp add: maxRequestBytes_def)
qed

section \<open>The synchronous endpoint\<close>

definition workflow_of :: "(string \<Rightarrow> 'a option) \<Rightarrow> step_request list \<Rightarrow> 'a step list" where
  "workflow_of agents ss =
     map (\<lambda>s. \<lparr>step_ID = sr_ID s, step_Agent = agents (sr_Agent s), step_Prompt = sr_Prompt s,
               step_DependsOn = contents (sr_DependsOn s)\<rparr>) ss"

lemma resolve_requests_eq:
  "resolve_requests agents ss =
     (case find (\<lambda>s. agents (sr_Agent s) = None) ss of
        Some s \<Rightarrow> Inl (''unknown agent: '' @ sr_Agent s)
      | None \<Rightarrow> Inr (workflow_of agents ss))"
  by (induction ss) (auto simp: workflow_of_def split: option.splits)

text \<open>A run without results to resume from: all steps succeeded, or some step failed.\<close>

lemma fresh_run:
  assumes "NewWorkflow ord steps opts = Inr plan" and "Run rt plan w = ((results, err), w')" and "Resume opts = []"
  shows "map result_ID results = map step_ID steps \<and>
    list_all2 (settled rt opts (results_map results)) steps results \<and>
    (err = None \<longleftrightarrow> list_all (\<lambda>r. result_Status r = Succeeded) results)"
proof -
  obtain R where R: "run_inv rt opts steps [] R" "results = map (result_of R) steps" "results_map results = R"
    and valid: "valid_steps steps" and closed: "closed_graph steps"
    and err: "err = map_option (\<lambda>s. \<lparr>we_StepID = step_ID s, we_Err = Errorf (result_Error (result_of R s))\<rparr>)
             (find (\<lambda>s. result_Status (result_of R s) = Failed) steps)"
    by (rule accepted_run [OF assms(1,2)])
  have acyclic: "acyclic (dep_edges steps)" using valid by (simp add: valid_steps_def)
  have "result_Status (result_of R s) = Succeeded"
    if none: "\<forall>t\<in>set steps. result_Status (result_of R t) \<noteq> Failed" and s: "s \<in> set steps" for s
  proof -
    have "\<not> (\<exists>d f. R d = Some f \<and> result_Status f = Failed)"
    proof clarify
      fix d f assume "R d = Some f" "result_Status f = Failed"
      moreover from this have "d \<in> step_ids steps" using R(1) by (auto simp: run_inv_def rem_ids_def)
      then obtain t where "t \<in> set steps" "d = step_ID t" by (auto simp: step_ids_def)
      ultimately show False using none result_of_in(1) [OF R(1)] by fastforce
    qed
    then have "result_Status (result_of R s) \<noteq> Skipped"
      using skipped_has_failure [OF R(1) closed acyclic result_of_in(1) [OF R(1) s]] by blast
    with settled_terminal [OF result_of_in(2) [OF R(1) s]] none s show ?thesis by blast
  qed
  then have "(err = None) = list_all (\<lambda>r. result_Status r = Succeeded) results"
    using err R(2) by (auto simp: find_None_iff list_all_iff)
  moreover have "map result_ID results = map step_ID steps" using R(2) result_of_in(3) [OF R(1)] by simp
  moreover have "list_all2 (settled rt opts (results_map results)) steps results"
    using R(2,3) result_of_in(2) [OF R(1)] by (simp add: list_all2_map2 list.rel_refl_strong)
  ultimately show ?thesis by blast
qed

text \<open>
  C12: what the synchronous endpoint answers. For every body, registry, agent behaviour and
  option: 400 without any effect on the world when the body does not decode, names an agent
  nobody configured (the first one is reported), or is no valid workflow; otherwise the
  workflow is run and the answer carries one result per step in the order of the request,
  each settled by the rules of a run, with status 200 exactly when every step succeeded and
  502 otherwise. There is no other answer.
\<close>

theorem run_endpoint_answers:
  "case decodeRunRequest body of
     None \<Rightarrow> runHandler env agents opts body w = (writeError 400 ''invalid JSON request'', w)
   | Some request \<Rightarrow>
       (let ss = contents (rq_Steps request); steps = workflow_of agents ss;
            opts' = \<lparr>MaxRetries = MaxRetries opts, RetryDelay = RetryDelay opts, Resume = []\<rparr>
        in case find (\<lambda>s. agents (sr_Agent s) = None) ss of
             Some s \<Rightarrow> runHandler env agents opts body w = (writeError 400 (''unknown agent: '' @ sr_Agent s), w)
           | None \<Rightarrow>
               if valid_steps steps \<and> 0 \<le> MaxRetries opts \<and> 0 \<le> RetryDelay opts
               then \<exists>results w'. runHandler env agents opts body w =
                      (writeJSON (if list_all (\<lambda>r. result_Status r = Succeeded) results then 200 else 502)
                         (run_response results), w') \<and>
                    map result_ID results = map sr_ID ss \<and>
                    list_all2 (settled (request_runtime env) opts' (results_map results)) steps results
               else \<exists>message. runHandler env agents opts body w = (writeError 400 message, w))"
proof (cases "decodeRunRequest body")
  case (Some request)
  let ?ss = "contents (rq_Steps request)"
  let ?opts = "\<lparr>MaxRetries = MaxRetries opts, RetryDelay = RetryDelay opts, Resume = []\<rparr>"
  show ?thesis
  proof (cases "find (\<lambda>s. agents (sr_Agent s) = None) ?ss")
    case None
    then have res: "resolve_requests agents ?ss = Inr (workflow_of agents ?ss)" by (simp add: resolve_requests_eq)
    show ?thesis
    proof (cases "NewWorkflow (en_range env) (workflow_of agents ?ss) ?opts")
      case (Inl e)
      then have "\<not> (valid_steps (workflow_of agents ?ss) \<and> 0 \<le> MaxRetries opts \<and> 0 \<le> RetryDelay opts)"
        using NewWorkflow_accepts [of "en_range env" "workflow_of agents ?ss" ?opts] by auto
      with Some None res Inl show ?thesis by (auto simp: runHandler_def http_status Let_def)
    next
      case (Inr plan)
      then have ok: "valid_steps (workflow_of agents ?ss) \<and> 0 \<le> MaxRetries opts \<and> 0 \<le> RetryDelay opts"
        by (simp add: NewWorkflow_accepts)
      obtain results err w' where run: "Run (request_runtime env) plan w = ((results, err), w')"
        by (metis prod.exhaust)
      have ids: "map step_ID (workflow_of agents ?ss) = map sr_ID ?ss" by (simp add: workflow_of_def)
      from fresh_run [OF Inr run] have fresh: "map result_ID results = map sr_ID ?ss"
        "list_all2 (settled (request_runtime env) ?opts (results_map results)) (workflow_of agents ?ss) results"
        "err = None \<longleftrightarrow> list_all (\<lambda>r. result_Status r = Succeeded) results"
        by (simp_all add: ids)
      have "runHandler env agents opts body w =
          (writeJSON (if list_all (\<lambda>r. result_Status r = Succeeded) results then 200 else 502)
             (run_response results), w')"
        using Some res Inr run fresh(3)
        by (cases err) (simp_all add: runHandler_def http_status)
      with Some None ok fresh(1,2) show ?thesis by (simp add: Let_def) blast
    qed
  qed (simp add: Some resolve_requests_eq runHandler_def http_status)
qed (simp add: runHandler_def http_status)

end
