(* ===== verification/Http_Stream.thy ===== *)
theory Http_Stream
  imports Http_Requests Jobs_Properties
begin

text \<open>
  The event stream on the backend of the cluster: what a reader receives while other
  processes write, where it resumes after a lost connection, and when its stream ends.
\<close>

section \<open>The header that resumes a stream\<close>

lemma decimal_nonempty: "decimal n \<noteq> []"
  by (subst decimal.simps) simp

lemma digits_value_append:
  "digits_value acc (s @ t) = (case digits_value acc s of None \<Rightarrow> None | Some a \<Rightarrow> digits_value a t)"
  by (induction acc s rule: digits_value.induct) simp_all

lemma hex_digit_decimal:
  "n < 10 \<Longrightarrow> CHR ''0'' \<le> hex_digit n \<and> hex_digit n \<le> CHR ''9'' \<and> byte (hex_digit n) = n + 48"
proof -
  assume "n < 10"
  then have "n \<in> set [0..<10]" by simp
  moreover have "\<forall>k\<in>set [0..<10]. CHR ''0'' \<le> hex_digit k \<and> hex_digit k \<le> CHR ''9'' \<and> byte (hex_digit k) = k + 48"
    by code_simp
  ultimately show ?thesis by blast
qed

lemma digits_value_decimal: "digits_value 0 (decimal n) = Some n"
proof (induction n rule: decimal.induct)
  case (1 n)
  show ?case
  proof (cases "n < 10")
    case True
    with hex_digit_decimal [OF True] show ?thesis by (subst decimal.simps) simp
  next
    case False
    have "n mod 10 < 10" by simp
    with False "1.IH" hex_digit_decimal [of "n mod 10"] show ?thesis
      by (subst decimal.simps) (simp add: digits_value_append)
  qed
qed

lemma decimal_starts: "\<exists>c s. decimal n = c # s \<and> c \<noteq> CHR ''-'' \<and> c \<noteq> CHR ''+''"
proof -
  obtain c s where cs: "decimal n = c # s" using decimal_nonempty by (cases "decimal n") auto
  have "digits_value 0 (c # s) = Some n" using digits_value_decimal cs by metis
  then have "CHR ''0'' \<le> c" by (simp split: if_splits)
  with cs show ?thesis by auto
qed

lemma resume_position_itoa:
  assumes "0 \<le> n" and "n < 2 ^ 63"
  shows "resume_position (itoa n) = Some n"
proof -
  obtain c s where cs: "decimal (nat n) = c # s" "c \<noteq> CHR ''-''" "c \<noteq> CHR ''+''" using decimal_starts by blast
  moreover have "digits_value 0 (c # s) = Some (nat n)" using digits_value_decimal cs(1) by metis
  moreover have "in_int64 n" using assms by (simp add: in_int64_def)
  ultimately show ?thesis
    using assms(1) by (simp add: resume_position_def itoa_def ParseInt_def del: digits_value.simps)
qed

section \<open>The log while others write\<close>

text \<open>
  Other processes change the database by any sequence of the statements of the store; a timer
  of the handler changes nothing.
\<close>

definition store_peers :: "'e backend \<Rightarrow> bool" where
  "store_peers b \<longleftrightarrow> (\<forall>n q d. \<exists>cs. snd (tn_peers (bk_turns b n) (q, d)) = fold store_step cs d)"

definition quiet_timer :: "('a, 'e backend) env \<Rightarrow> bool" where
  "quiet_timer env \<longleftrightarrow> (\<forall>d b. snd (en_timer env d b) = b)"

definition log_ok :: "db \<Rightarrow> bool" where
  "log_ok d \<longleftrightarrow> sorted_wrt (\<lambda>a b. e_id a < e_id b) (db_events d) \<and> (\<forall>e\<in>set (db_events d). e_id e < next_event d)"

lemma log_ok_store: "store_ok d \<Longrightarrow> log_ok d"
  by (auto simp: log_ok_def store_ok_def events_ok_def)

lemma log_grows:
  assumes "log_ok d"
  obtains new where "db_events (fold store_step cs d) = db_events d @ new" "log_ok (fold store_step cs d)"
    "list_all (\<lambda>e. next_event d \<le> e_id e) new" "next_event d \<le> next_event (fold store_step cs d)"
proof -
  obtain new where new: "db_events (fold store_step cs d) = db_events d @ new"
    "sorted_wrt (\<lambda>a b. e_id a < e_id b) new" "next_event d \<le> next_event (fold store_step cs d)"
    "\<forall>e\<in>set new. next_event d \<le> e_id e \<and> e_id e < next_event (fold store_step cs d)"
    using event_steps [of cs d] by blast
  moreover have "log_ok (fold store_step cs d)"
    using assms new by (fastforce simp: log_ok_def sorted_wrt_append)
  ultimately show thesis by (intro that [of new]) (auto simp: list_all_iff)
qed

text \<open>The events of a job with IDs after \<open>k\<close> up to \<open>m\<close>, in the order of the log.\<close>

definition log_between :: "string \<Rightarrow> int \<Rightarrow> int \<Rightarrow> db \<Rightarrow> event_row list" where
  "log_between j k m d = filter (\<lambda>e. e_job_id e = j \<and> k < e_id e \<and> e_id e \<le> m) (db_events d)"

definition read_event :: "event_row \<Rightarrow> event" where
  "read_event e = \<lparr>ev_ID = e_id e, ev_Type = e_type e, ev_Data = e_data e, ev_CreatedAt = e_created_at e * 1000\<rparr>"

text \<open>A position is the start of the reading or the ID of an event that was read.\<close>

definition position_ok :: "string \<Rightarrow> int \<Rightarrow> int \<Rightarrow> db \<Rightarrow> bool" where
  "position_ok j k m d \<longleftrightarrow> m = k \<or> k < m \<and> list_ex (\<lambda>e. e_job_id e = j \<and> e_id e = m) (db_events d)"

lemma position_last:
  assumes "log_ok d" and "position_ok j k m d"
  shows "m = (if log_between j k m d = [] then k else e_id (last (log_between j k m d)))"
proof (cases "m = k")
  case True
  then have "log_between j k m d = []" by (auto simp: log_between_def filter_empty_conv)
  with True show ?thesis by simp
next
  case False
  with assms(2) obtain e where "e \<in> set (db_events d)" "e_job_id e = j" "e_id e = m" "k < m"
    by (auto simp: position_ok_def list_ex_iff)
  then have e: "e \<in> set (log_between j k m d)" "e_id e = m" by (simp_all add: log_between_def)
  have sorted: "sorted_wrt (\<lambda>a b. e_id a < e_id b) (log_between j k m d)"
    using assms(1) by (simp add: log_ok_def log_between_def sorted_wrt_filter)
  have bound: "e_id x \<le> m" if "x \<in> set (log_between j k m d)" for x using that by (simp add: log_between_def)
  show ?thesis
  proof (cases "log_between j k m d" rule: rev_cases)
    case (snoc ys y)
    have "e_id y \<le> m" using bound [of y] snoc by simp
    moreover have "m \<le> e_id y" using e sorted snoc by (fastforce simp: sorted_wrt_append)
    ultimately show ?thesis using snoc by simp
  qed (use e in simp)
qed

lemma log_between_stable:
  assumes "log_ok d" and "position_ok j k m d"
  shows "log_between j k m (fold store_step cs d) = log_between j k m d \<and> position_ok j k m (fold store_step cs d)"
proof -
  obtain new where new: "db_events (fold store_step cs d) = db_events d @ new"
    "list_all (\<lambda>e. next_event d \<le> e_id e) new" "next_event d \<le> next_event (fold store_step cs d)"
    using log_grows [OF assms(1), of cs] by blast
  have "filter (\<lambda>e. e_job_id e = j \<and> k < e_id e \<and> e_id e \<le> m) new = []"
    using new(2) assms by (fastforce simp: filter_empty_conv list_all_iff list_ex_iff position_ok_def log_ok_def)
  with new(1,3) assms(2) show ?thesis by (auto simp: log_between_def position_ok_def)
qed

lemma select_events_log: "log_ok d \<Longrightarrow> select_events j m d = filter (\<lambda>e. e_job_id e = j \<and> m < e_id e) (db_events d)"
  by (simp add: log_ok_def select_events_sorted)

lemma filter_split_sorted:
  assumes "sorted_wrt (\<lambda>a b. e_id a < e_id b) es"
  shows "filter (\<lambda>e. P e \<and> e_id e \<le> (m :: int)) es @ filter (\<lambda>e. P e \<and> m < e_id e) es = filter P es"
  using assms
proof (induction es)
  case (Cons e es)
  show ?case
  proof (cases "e_id e \<le> m")
    case False
    with Cons.prems have "filter (\<lambda>e. P e \<and> e_id e \<le> m) es = []" by (auto simp: filter_empty_conv)
    with False Cons show ?thesis by auto
  qed (use Cons in auto)
qed simp

text \<open>One poll extends what was read to everything there is.\<close>

lemma poll_extends:
  fixes j
  assumes "log_ok d" and pos: "position_ok j k m d"
  defines "es \<equiv> select_events j m d"
  defines "m' \<equiv> if es = [] then m else e_id (last es)"
  shows "log_between j k m' d = log_between j k m d @ es \<and> position_ok j k m' d \<and>
    select_events j k d = log_between j k m' d"
proof -
  have sorted: "sorted_wrt (\<lambda>a b. e_id a < e_id b) (db_events d)" using assms(1) by (simp add: log_ok_def)
  have es: "es = filter (\<lambda>e. e_job_id e = j \<and> m < e_id e) (db_events d)"
    by (simp add: es_def select_events_log [OF assms(1)])
  have km: "k \<le> m" using pos by (auto simp: position_ok_def)
  have all: "log_between j k m d @ es = select_events j k d"
  proof -
    have "filter (\<lambda>e. (e_job_id e = j \<and> k < e_id e) \<and> m < e_id e) (db_events d) = es"
      unfolding es using km by (intro filter_cong) auto
    with filter_split_sorted [OF sorted, of "\<lambda>e. e_job_id e = j \<and> k < e_id e" m] show ?thesis
      by (simp add: log_between_def select_events_log [OF assms(1)] conj_assoc)
  qed
  have top: "e_id e \<le> m'" if "e \<in> set es" for e
  proof -
    have "sorted_wrt (\<lambda>a b. e_id a < e_id b) es" unfolding es by (rule sorted_wrt_filter [OF sorted])
    with that show ?thesis by (cases es rule: rev_cases) (auto simp: sorted_wrt_append m'_def)
  qed
  have le: "m \<le> m'"
  proof (cases "es = []")
    case False
    then have "last es \<in> set es" by simp
    then show ?thesis using False by (auto simp: es m'_def)
  qed (simp add: m'_def)
  have "e_id e \<le> m'" if "e \<in> set (db_events d)" "e_job_id e = j" for e
    using that top [of e] le by (cases "m < e_id e") (auto simp: es)
  then have "log_between j k m' d = select_events j k d"
    unfolding log_between_def select_events_log [OF assms(1)] by (intro filter_cong) auto
  moreover have "position_ok j k m' d"
  proof (cases "es = []")
    case False
    then have "last es \<in> set es" by simp
    then have "last es \<in> set (db_events d)" "e_job_id (last es) = j" "m < e_id (last es)" by (simp_all add: es)
    then show ?thesis using km False by (auto simp: position_ok_def list_ex_iff m'_def)
  qed (use pos in \<open>simp add: m'_def\<close>)
  ultimately show ?thesis using all by simp
qed

section \<open>The loop\<close>

lemma db_read:
  assumes "db_call (\<lambda>_ _ d. (f d, d)) b = (r, b')"
  shows "bk_turns b' = bk_turns b \<and> bk_db b' = snd (tn_peers (bk_turns b (bk_calls b)) (bk_redis b, bk_db b)) \<and>
    (r = Inr (f (bk_db b')) \<or> (\<exists>e. r = Inl e) \<and> tn_net (bk_turns b (bk_calls b)) \<noteq> Delivered)"
  using assms
  by (cases "tn_net (bk_turns b (bk_calls b))") (auto simp: db_call_def next_turn_def Let_def split_beta)

lemma peers_statements:
  "store_peers b \<Longrightarrow> \<exists>cs. snd (tn_peers (bk_turns b n) (q, d)) = fold store_step cs d"
  unfolding store_peers_def by blast

lemma Service_Events_call:
  assumes "sv_Store sv = pg_store" and "store_peers b" and "Service_Events sv j after b = (r, b')"
  obtains cs where "bk_db b' = fold store_step cs (bk_db b)" "bk_turns b' = bk_turns b"
    "r = Inr (map read_event (select_events j after (bk_db b'))) \<or>
     (\<exists>e. r = Inl e) \<and> tn_net (bk_turns b (bk_calls b)) \<noteq> Delivered"
proof -
  obtain r1 where call: "db_call (\<lambda>_ _ d. (select_events j after d, d)) b = (r1, b')"
    and r: "r = (case r1 of Inl e \<Rightarrow> Inl e | Inr es \<Rightarrow> Inr (map read_event es))"
    using assms(1,3) by (auto simp: Service_Events_def pg_store_def Store_Events_def map_answer_def
        read_event_def [abs_def] split: prod.splits sum.splits)
  obtain cs where "snd (tn_peers (bk_turns b (bk_calls b)) (bk_redis b, bk_db b)) = fold store_step cs (bk_db b)"
    using peers_statements [OF assms(2)] by blast
  with db_read [OF call] r show thesis by (intro that [of cs]) auto
qed

lemma event_loop_exact:
  assumes "sv_Store sv = pg_store" and "quiet_timer env"
    and "event_loop env sv j n m sent b = ((closed, sent'), b')"
    and "store_peers b" and "log_ok (bk_db b)" and "position_ok j k m (bk_db b)"
    and "sent = map read_event (log_between j k m (bk_db b))" and "\<not> list_ex (\<lambda>e. IsTerminal (ev_Type e)) sent"
  shows "\<exists>m'. log_ok (bk_db b') \<and> position_ok j k m' (bk_db b') \<and>
    sent' = map read_event (log_between j k m' (bk_db b')) \<and> (\<not> list_ex (\<lambda>e. IsTerminal (ev_Type e)) sent' \<or> closed)"
  using assms(3-)
proof (induction n arbitrary: m sent b)
  case (Suc n)
  obtain r b1 where call: "Service_Events sv j m b = (r, b1)" by (metis prod.exhaust)
  obtain cs where cs: "bk_db b1 = fold store_step cs (bk_db b)" "bk_turns b1 = bk_turns b"
    "r = Inr (map read_event (select_events j m (bk_db b1))) \<or>
     (\<exists>e. r = Inl e) \<and> tn_net (bk_turns b (bk_calls b)) \<noteq> Delivered"
    by (rule Service_Events_call [OF assms(1) Suc.prems(2) call])
  have log: "log_ok (bk_db b1)" using log_grows [OF Suc.prems(3), of cs] cs(1) by metis
  have keep: "log_between j k m (bk_db b1) = log_between j k m (bk_db b)" "position_ok j k m (bk_db b1)"
    using log_between_stable [OF Suc.prems(3,4)] cs(1) by simp_all
  have peers: "store_peers b1" using Suc.prems(2) cs(2) by (simp add: store_peers_def)
  let ?es = "select_events j m (bk_db b1)"
  let ?m = "if ?es = [] then m else e_id (last ?es)"
  show ?case
  proof (cases r)
    case (Inl e)
    with Suc.prems(1,5) call log keep show ?thesis by auto
  next
    case (Inr events)
    with cs(3) have events: "events = map read_event ?es" by auto
    then have after: "(if events = [] then m else ev_ID (last events)) = ?m"
      by (simp add: last_map read_event_def)
    have sent1: "sent @ events = map read_event (log_between j k ?m (bk_db b1))" and pos: "position_ok j k ?m (bk_db b1)"
      using poll_extends [OF log keep(2)] Suc.prems(5) keep(1) events by simp_all
    obtain fired b2 where timer: "en_timer env pollInterval b1 = (fired, b2)" by (metis prod.exhaust)
    with assms(2) have b2: "b2 = b1" by (metis quiet_timer_def snd_conv)
    show ?thesis
    proof (cases "list_ex (\<lambda>e. IsTerminal (ev_Type e)) events \<or> \<not> fired \<and> en_done env b1 \<noteq> None")
      case True
      then have "sent' = sent @ events \<and> b' = b1 \<and> closed"
        using Suc.prems(1) call Inr timer b2 by (auto simp: Let_def split: bool.splits option.splits if_splits)
      with log pos sent1 show ?thesis by auto
    next
      case False
      then have "event_loop env sv j n ?m (sent @ events) b1 = ((closed, sent'), b')"
        using Suc.prems(1) call Inr timer b2 after by (auto simp: Let_def split: bool.splits option.splits)
      from Suc.IH [OF this peers log pos sent1] False Suc.prems(6) show ?thesis by simp
    qed
  qed
qed auto

section \<open>What a reader receives\<close>

lemma Service_Get_peers:
  assumes "sv_Store sv = pg_store" and "store_peers b" and "Service_Get sv j b = (r, b')"
  shows "bk_turns b' = bk_turns b \<and> (\<exists>cs. bk_db b' = fold store_step cs (bk_db b))"
proof -
  obtain r1 b1 where call: "db_call (\<lambda>_ _ d. (select_job j d, d)) b = (r1, b1)" by (metis prod.exhaust)
  note read1 = db_read [OF call]
  obtain cs where cs: "bk_db b1 = fold store_step cs (bk_db b)" using peers_statements [OF assms(2)] read1 by metis
  show ?thesis
  proof (cases "\<exists>row. r1 = Inr (Some row)")
    case True
    then obtain row where row: "r1 = Inr (Some row)" by blast
    obtain r2 b2 where call2: "db_call (\<lambda>_ _ d. (select_steps j d, d)) b1 = (r2, b2)" by (metis prod.exhaust)
    with call row assms(1,3) have b': "b' = b2"
      by (auto simp: Service_Get_def pg_store_def Store_Get_def map_answer_def split: sum.splits)
    have "store_peers b1" using assms(2) read1 by (simp add: store_peers_def)
    then obtain cs2 where "bk_db b2 = fold store_step cs2 (bk_db b1)" using peers_statements db_read [OF call2] by metis
    with cs have "bk_db b' = fold store_step (cs @ cs2) (bk_db b)" by (simp add: b')
    with read1 db_read [OF call2] b' show ?thesis by metis
  next
    case False
    with call assms(1,3) have "b' = b1"
      by (auto simp: Service_Get_def pg_store_def Store_Get_def split: sum.splits option.splits)
    with cs read1 show ?thesis by metis
  qed
qed

lemma ParseInt_range: "ParseInt s = Some n \<Longrightarrow> n < 2 ^ 63"
  by (auto simp: ParseInt_def Let_def in_int64_def split: option.splits prod.splits if_splits)

lemma resume_position_range: "resume_position s = Some n \<Longrightarrow> 0 \<le> n \<and> n < 2 ^ 63"
  by (auto simp: resume_position_def dest: ParseInt_range split: option.splits if_splits)

lemma stream_started:
  assumes run: "eventsHandler env sv raw_json can_flush n j header b = ((closed, rsp), b')" and "rs_Status rsp = StatusOK"
  obtains b1 k sent job where "Service_Get sv j b = (Inr (Some job), b1)" "resume_position header = Some k"
    "event_loop env sv j n k [] b1 = ((closed, sent), b')" "rs_Body rsp = concat (map (event_frame raw_json) sent)"
proof -
  have error: "rs_Status (writeError c m) = c" for c m by (simp add: writeError_def writeJSON_def)
  obtain r b1 where get: "Service_Get sv j b = (r, b1)" by (metis prod.exhaust)
  obtain job where job: "r = Inr (Some job)" "can_flush"
  proof (cases r)
    case (Inr found)
    with run get assms(2) that show thesis
      by (cases found; cases can_flush) (auto simp: eventsHandler_def error http_status)
  qed (use run get assms(2) in \<open>auto simp: eventsHandler_def error http_status\<close>)
  obtain k where k: "resume_position header = Some k"
    using run get job assms(2) by (cases "resume_position header") (auto simp: eventsHandler_def error http_status)
  obtain c sent b2 where loop: "event_loop env sv j n k [] b1 = ((c, sent), b2)" by (metis prod.exhaust)
  with run get job k have "c = closed" "b2 = b'" "rs_Body rsp = concat (map (event_frame raw_json) sent)"
    by (auto simp: eventsHandler_def)
  with get job k loop show thesis by (intro that) simp_all
qed


text \<open>A job that was finished, and its log of two events.\<close>

definition stream_db :: db where
  "stream_db = fold store_step [(20, SqlAppend ''j'' EventRunning (RunningJob Running ''w'' 1)),
     (30, SqlAppend ''j'' EventCompleted (FinishedJob Succeeded [] ''w'' 1))] demo_db"

lemma stream_db_ok: "store_ok stream_db"
  by (simp add: stream_db_def store_ok_step demo_db_ok del: store_step.simps)

lemma calm_peers: "store_peers (calm_backend q d)"
  unfolding store_peers_def by (auto simp: calm_backend_def calm_turn_def intro: exI [of _ "[]"])

lemma calm_timer: "quiet_timer calm_env"
  by (simp add: quiet_timer_def calm_env_def)


section \<open>When a stream ends\<close>

lemma quiet_poll:
  assumes "sv_Store sv = pg_store" and "undisturbed b" and "reliable b"
  shows "\<exists>b'. Service_Events sv j m b = (Inr (map read_event (select_events j m (bk_db b))), b') \<and> bk_db b' = bk_db b \<and>
    undisturbed b' \<and> reliable b'"
  using db_call_runs [OF assms(2,3), of "\<lambda>_ _ d. (select_events j m d, d)"] assms
  by (auto simp: Service_Events_def pg_store_def Store_Events_def map_answer_def read_event_def [abs_def]
      undisturbed_def reliable_def)

lemma open_loop:
  assumes "sv_Store sv = pg_store" and "quiet_timer env" and "\<forall>b. en_done env b = None"
    and "undisturbed b" and "reliable b" and "log_ok (bk_db b)"
    and "\<not> list_ex (\<lambda>e. IsTerminal (e_type e)) (select_events j m (bk_db b))"
  shows "fst (fst (event_loop env sv j n m sent b)) = False"
  using assms(4-)
proof (induction n arbitrary: m sent b)
  case (Suc n)
  let ?es = "select_events j m (bk_db b)"
  let ?m = "if ?es = [] then m else e_id (last ?es)"
  obtain b1 where poll: "Service_Events sv j m b = (Inr (map read_event ?es), b1)"
    and b1: "bk_db b1 = bk_db b" "undisturbed b1" "reliable b1"
    using quiet_poll [OF assms(1) Suc.prems(1,2)] by blast
  have none: "\<not> list_ex (\<lambda>e. IsTerminal (ev_Type e)) (map read_event ?es)"
    using Suc.prems(4) by (auto simp: list_ex_iff read_event_def)
  have "position_ok j m m (bk_db b)" by (simp add: position_ok_def)
  from poll_extends [OF Suc.prems(3) this] have "select_events j ?m (bk_db b) = []"
    by (metis (no_types, lifting) append_self_conv poll_extends Suc.prems(3))
  then have rest: "\<not> list_ex (\<lambda>e. IsTerminal (e_type e)) (select_events j ?m (bk_db b1))" by (simp add: b1)
  obtain fired where timer: "en_timer env pollInterval b1 = (fired, b1)"
    using assms(2) by (metis quiet_timer_def prod.collapse)
  have "(if map read_event ?es = [] then m else ev_ID (last (map read_event ?es))) = ?m"
    by (simp add: last_map read_event_def)
  then have "event_loop env sv j (Suc n) m sent b = event_loop env sv j n ?m (sent @ map read_event ?es) b1"
    using poll none timer assms(3) by (simp add: Let_def del: list_ex_iff split: bool.split)
  with Suc.IH [OF b1(2,3) _ rest] Suc.prems(3) b1(1) show ?case by simp
qed simp

text \<open>
  C39: a stream ends with a terminal event, not with a terminal job. When the job is finished but
  its log holds no terminal event after the position of the reader, as after a submission
  whose push failed or a last event that could not be appended, the handler polls for as long
  as the client stays connected: no number of polls makes it return.
\<close>

theorem finished_job_stream_stays_open:
  assumes "sv_Store sv = pg_store" and "quiet_timer env" and "\<forall>b. en_done env b = None"
    and "undisturbed b" and "reliable b" and "store_ok (bk_db b)"
    and job: "select_job j (bk_db b) = Some row" "terminal (j_status row)"
    and "resume_position header = Some k"
    and none: "\<not> list_ex (\<lambda>e. IsTerminal (e_type e)) (select_events j k (bk_db b))"
  shows "fst (fst (eventsHandler env sv raw_json True n j header b)) = False"
proof -
  obtain b1 where get1: "db_call (\<lambda>_ _ d. (select_job j d, d)) b = (Inr (Some row), b1)"
    and b1: "bk_db b1 = bk_db b" "bk_turns b1 = bk_turns b"
    using db_call_runs [OF assms(4,5), of "\<lambda>_ _ d. (select_job j d, d)"] job(1) by auto
  have ok1: "undisturbed b1" "reliable b1" using assms(4,5) b1 by (simp_all add: undisturbed_def reliable_def)
  obtain b2 where get2: "db_call (\<lambda>_ _ d. (select_steps j d, d)) b1 = (Inr (select_steps j (bk_db b)), b2)"
    and b2: "bk_db b2 = bk_db b" "bk_turns b2 = bk_turns b"
    using db_call_runs [OF ok1, of "\<lambda>_ _ d. (select_steps j d, d)"] b1 by auto
  have "Service_Get sv j b = (Inr (Some (load_job j row (select_steps j (bk_db b)))), b2)"
    using get1 get2 assms(1) by (simp add: Service_Get_def pg_store_def Store_Get_def map_answer_def)
  moreover have "fst (fst (event_loop env sv j n k [] b2)) = False"
    using assms(4-6) b2 none
    by (intro open_loop [OF assms(1-3)]) (simp_all add: undisturbed_def reliable_def log_ok_store)
  ultimately show ?thesis using assms(9) by (simp add: eventsHandler_def split_beta)
qed

text \<open>The job of a submission whose push failed: finished without an event.\<close>

definition unpushed_db :: db where
  "unpushed_db = fold store_step [(10, SqlCreate demo_job), (20, SqlAppend ''j'' EventQueued (QueuedJob demo_job)),
     (30, SqlFinish ''j'' [] Failed ''enqueue failed: timeout'')] empty_db"

theorem finished_job_stream_stays_open_witness:
  "fst (fst (eventsHandler calm_env calm_service (\<lambda>_. ''{}'') True 100 ''j'' [] (calm_backend empty_queue unpushed_db))) =
   False"
proof -
  have row: "map_option j_status (select_job ''j'' unpushed_db) = Some Failed" and
    log: "\<not> list_ex (\<lambda>e. IsTerminal (e_type e)) (select_events ''j'' 0 unpushed_db)" by code_simp+
  from row obtain r where r: "select_job ''j'' unpushed_db = Some r" "j_status r = Failed" by auto
  have "store_ok empty_db" by (simp add: store_ok_def empty_db_def jobs_ok_def steps_ok_def events_ok_def)
  then have "store_ok unpushed_db"
    by (simp add: unpushed_db_def store_ok_step demo_job_def terminal_def del: store_step.simps)
  with r log show ?thesis
    by (intro finished_job_stream_stays_open [OF _ calm_timer, of _ _ _ r _ 0])
      (simp_all add: calm_service_def calm_env_def calm_backend_def calm_turn_def undisturbed_def reliable_def
        terminal_def resume_position_def)
qed

end
