(* ===== verification/Eino_Agent.thy ===== *)
theory Eino_Agent
  imports Jobs_Interfaces Workflow_Prompt
begin

text \<open>
  The agents (\<^verbatim>\<open>internal/einoagent/agent.go\<close>): the checks and defaults of \<open>New\<close>, and \<open>Run\<close>,
  which sends one prompt to a chat model. The chat model is a third-party package: its
  constructor and its \<open>Generate\<close> are arguments, over any type of models \<open>'m\<close>.
\<close>

section \<open>Construction\<close>

record 'c eino_config =
  ec_Name :: string
  ec_ModelID :: string
  ec_BaseURL :: string
  ec_TokenEnv :: string
  ec_Instruction :: string
  ec_MaxTokens :: int
  ec_Timeout :: int
  ec_HTTPClient :: "'c option"

text \<open>\<open>openai.ChatModelConfig\<close>.\<close>

record 'c model_config =
  mc_APIKey :: string
  mc_BaseURL :: string
  mc_Model :: string
  mc_MaxTokens :: "int option"
  mc_Timeout :: int
  mc_HTTPClient :: "'c option"

text \<open>The model is a pointer: \<open>None\<close> is \<open>nil\<close>.\<close>

record 'm eino_agent =
  ea_model :: "'m option"
  ea_instruction :: string

definition defaultBaseURL :: string where
  "defaultBaseURL = ''https://router.huggingface.co/v1''"

definition defaultTokenEnv :: string where
  "defaultTokenEnv = ''HF_TOKEN''"

definition eino_New ::
  "(string \<Rightarrow> string) \<Rightarrow> ('c model_config \<Rightarrow> gerror + 'm) \<Rightarrow> 'c eino_config \<Rightarrow> gerror + 'm eino_agent" where
  "eino_New getenv NewChatModel config =
     (if ec_Name config = [] \<or> ec_ModelID config = []
      then Inl (Errorf ''Eino agent requires a name and model ID'')
      else
        (let token_env = (if ec_TokenEnv config = [] then defaultTokenEnv else ec_TokenEnv config);
             token = getenv token_env
         in if token = []
            then Inl (Errorf (''environment variable '' @ go_quote token_env @ '' is not set''))
            else
              (let base_url = (if ec_BaseURL config = [] then defaultBaseURL else ec_BaseURL config);
                   max_tokens = (if ec_MaxTokens config > 0 then Some (ec_MaxTokens config) else None)
               in case NewChatModel \<lparr>mc_APIKey = token, mc_BaseURL = base_url, mc_Model = ec_ModelID config,
                         mc_MaxTokens = max_tokens, mc_Timeout = ec_Timeout config,
                         mc_HTTPClient = ec_HTTPClient config\<rparr> of
                    Inl e \<Rightarrow> Inl (Wrapf (''create Eino chat model: '' @ error_text e) e)
                  | Inr model \<Rightarrow> Inr \<lparr>ea_model = Some model, ea_instruction = ec_Instruction config\<rparr>)))"

section \<open>A call\<close>

datatype message = SystemMessage string | UserMessage string

text \<open>A response is a pointer to a message, of which the text is used.\<close>

definition eino_Run ::
  "('m \<Rightarrow> message list \<Rightarrow> ('w, string option) op) \<Rightarrow> 'm eino_agent option \<Rightarrow> string \<Rightarrow> ('w, string) op" where
  "eino_Run Generate a prompt w =
     (case Option.bind a ea_model of
        None \<Rightarrow> (Inl (Errorf ''Eino agent is not initialized''), w)
      | Some model \<Rightarrow>
          (let instruction = ea_instruction (the a);
               messages = (if instruction \<noteq> [] then [SystemMessage instruction] else []) @ [UserMessage prompt]
           in case Generate model messages w of
                (Inl e, w1) \<Rightarrow> (Inl (Wrapf (''generate with Eino chat model: '' @ error_text e) e), w1)
              | (Inr response, w1) \<Rightarrow>
                  (case response of
                     None \<Rightarrow> (Inl (Errorf ''Eino chat model returned no text output''), w1)
                   | Some content \<Rightarrow>
                       if TrimSpace content = []
                       then (Inl (Errorf ''Eino chat model returned no text output''), w1)
                       else (Inr content, w1))))"

text \<open>What \<open>New\<close> guarantees, and what an answer is.\<close>

lemma eino_New_Inr:
  "eino_New getenv NewChatModel config = Inr a \<Longrightarrow>
   ec_Name config \<noteq> [] \<and> ec_ModelID config \<noteq> [] \<and> ea_model a \<noteq> None \<and> ea_instruction a = ec_Instruction config"
  by (auto simp: eino_New_def Let_def split: if_splits sum.splits)

lemma eino_Run_output: "eino_Run Generate a prompt w = (Inr out, w') \<Longrightarrow> TrimSpace out \<noteq> []"
  by (auto simp: eino_Run_def Let_def split: option.splits prod.splits sum.splits if_splits)

end
