(* ===== verification/Node.thy ===== *)
theory Node
  imports App_Config Http_Api Eino_Agent Jobs_Backend
begin

text \<open>
  The process (\<^verbatim>\<open>cmd/anchora/main.go\<close>): \<open>run\<close> loads the configuration, builds the agents,
  connects the backend, starts the workers and serves the API. Files, the environment, the
  chat models and the connections are arguments; a goroutine is named by what it runs. The
  deferred calls of \<open>run\<close> are the list of what the process does when it leaves, in their order.
\<close>

section \<open>Agents\<close>

definition eino_settings :: "string \<Rightarrow> agent_config \<Rightarrow> unit eino_config" where
  "eino_settings name d =
     \<lparr>ec_Name = name, ec_ModelID = ModelID d, ec_BaseURL = BaseURL d, ec_TokenEnv = TokenEnv d,
      ec_Instruction = Instruction d, ec_MaxTokens = MaxTokens d, ec_Timeout = Agent_Timeout d,
      ec_HTTPClient = None\<rparr>"

fun build_each ::
  "(unit eino_config \<Rightarrow> gerror + 'm eino_agent) \<Rightarrow> (string \<times> agent_config) list \<Rightarrow> (string \<rightharpoonup> 'm eino_agent)
   \<Rightarrow> gerror + (string \<rightharpoonup> 'm eino_agent)" where
  "build_each new [] agents = Inr agents"
| "build_each new ((name, definition) # rest) agents =
     (case new (eino_settings name definition) of
        Inl e \<Rightarrow> Inl (Wrapf (''configure agent '' @ go_quote name @ '': '' @ error_text e) e)
      | Inr agent \<Rightarrow> build_each new rest (agents(name \<mapsto> agent)))"

definition buildAgents ::
  "(string list \<Rightarrow> string list) \<Rightarrow> (unit eino_config \<Rightarrow> gerror + 'm eino_agent) \<Rightarrow> (string \<times> agent_config) list
   \<Rightarrow> gerror + (string \<rightharpoonup> 'm eino_agent)" where
  "buildAgents ord new definitions = build_each new (in_order ord definitions) Map.empty"

section \<open>The backend\<close>

text \<open>
  \<open>open_store\<close> and \<open>open_queue\<close> are \<open>NewStore\<close> and \<open>NewQueue\<close> with their connections, \<open>store\<close> and
  \<open>queue\<close> the methods on what they return. The second component are the stores closed again.
\<close>

definition newJobService ::
  "(string \<Rightarrow> string) \<Rightarrow> (string \<Rightarrow> gerror + 'p) \<Rightarrow> (string \<Rightarrow> string \<Rightarrow> gerror + 'q) \<Rightarrow> ('p \<Rightarrow> 'w job_store)
   \<Rightarrow> ('q \<Rightarrow> 'w job_queue) \<Rightarrow> app_config \<Rightarrow> (string \<Rightarrow> 'a option)
   \<Rightarrow> (gerror + ('a, 'w) service \<times> 'p \<times> 'q) \<times> 'p list" where
  "newJobService getenv open_store open_queue store queue cfg agents =
     (case open_store (DatabaseURL getenv (cf_Async cfg)) of
        Inl e \<Rightarrow> (Inl (Wrapf (''PostgreSQL: '' @ error_text e) e), [])
      | Inr pool \<Rightarrow>
          (case open_queue (RedisURL getenv (cf_Async cfg)) (ac_QueueName (cf_Async cfg)) of
             Inl e \<Rightarrow> (Inl (Wrapf (''Redis: '' @ error_text e) e), [pool])
           | Inr client \<Rightarrow>
               (Inr (\<lparr>sv_Store = store pool, sv_Queue = queue client, sv_Agents = agents,
                      sv_Options = workflow_options (cf_Workflow cfg), sv_Config = job_config (cf_Async cfg)\<rparr>,
                     pool, client), [])))"

text \<open>What \<open>run\<close> does when it leaves; log output and errors that are only logged are left out.\<close>

datatype ('p, 'q) exit_act = ShutdownServer int | AwaitWorkers int | CloseQueue 'q | CloseStore 'p | StopSignals

definition closeBackend :: "'p \<times> 'q \<Rightarrow> ('p, 'q) exit_act list" where
  "closeBackend b = (case b of (pool, client) \<Rightarrow> [CloseQueue client, CloseStore pool])"

section \<open>Workers\<close>

datatype goroutine = WorkerLoop string | ReaperLoop

fun start_each ::
  "('a, 'w) env \<Rightarrow> string \<Rightarrow> int \<Rightarrow> nat \<Rightarrow> goroutine list \<Rightarrow> 'w \<Rightarrow> (gerror option \<times> goroutine list) \<times> 'w" where
  "start_each env hostname pid 0 threads w = ((None, threads), w)"
| "start_each env hostname pid (Suc n) threads w =
     (case NewWorkerID env hostname pid w of
        (Inl e, w1) \<Rightarrow> ((Some (Wrapf (''generate worker ID: '' @ error_text e) e), threads), w1)
      | (Inr worker, w1) \<Rightarrow> start_each env hostname pid n (threads @ [WorkerLoop worker]) w1)"

text \<open>The goroutines that were started; after an error those before it keep running.\<close>

definition startWorkers ::
  "('a, 'w) env \<Rightarrow> string \<Rightarrow> int \<Rightarrow> async_config \<Rightarrow> 'w \<Rightarrow> (gerror option \<times> goroutine list) \<times> 'w" where
  "startWorkers env hostname pid async w =
     (case start_each env hostname pid (nat (WorkerCount async)) [] w of
        ((Some e, threads), w1) \<Rightarrow> ((Some e, threads), w1)
      | ((None, threads), w1) \<Rightarrow> ((None, if ReaperEnabled async then threads @ [ReaperLoop] else threads), w1))"

text \<open>What the goroutine of a worker or of the reaper runs, for \<open>n\<close> iterations.\<close>

fun run_goroutine ::
  "('a, 'w) env \<Rightarrow> ('a, 'w) service \<Rightarrow> string \<Rightarrow> int \<Rightarrow> nat \<Rightarrow> goroutine \<Rightarrow> 'w \<Rightarrow> gerror option \<times> 'w" where
  "run_goroutine env sv hostname pid n (WorkerLoop worker) w = RunWorker env sv hostname pid worker n w"
| "run_goroutine env sv hostname pid n ReaperLoop w = RunReaper env sv n w"

section \<open>run\<close>

text \<open>A process that serves: its address, its routes, its backend and its goroutines.\<close>

record ('a, 'p, 'q, 'w) node =
  nd_Address :: string
  nd_Agents :: "string \<Rightarrow> 'a option"
  nd_Options :: options
  nd_Service :: "('a, 'w) service option"
  nd_Backend :: "('p \<times> 'q) option"
  nd_Goroutines :: "goroutine list"

record ('m, 'p, 'q, 'w) process_env =
  pe_getenv :: "string \<Rightarrow> string"
  pe_read_file :: "string \<Rightarrow> gerror + string"
  pe_unmarshal :: "string \<Rightarrow> gerror + app_config"
  pe_NewChatModel :: "unit model_config \<Rightarrow> gerror + 'm"
  pe_open_store :: "string \<Rightarrow> gerror + 'p"
  pe_open_queue :: "string \<Rightarrow> string \<Rightarrow> gerror + 'q"
  pe_store :: "'p \<Rightarrow> 'w job_store"
  pe_queue :: "'q \<Rightarrow> 'w job_queue"
  pe_hostname :: string
  pe_pid :: int

text \<open>
  The block under \<open>if cfg.Async.Enabled\<close>. From the deferred \<open>closeBackend\<close> on, leaving \<open>run\<close>
  closes the backend.
\<close>

definition start_service ::
  "('m, 'p, 'q, 'w) process_env \<Rightarrow> ('m eino_agent, 'w) env \<Rightarrow> app_config \<Rightarrow> (string \<Rightarrow> 'm eino_agent option) \<Rightarrow> 'w
   \<Rightarrow> ((gerror + ('m eino_agent, 'w) service option \<times> ('p \<times> 'q) option \<times> goroutine list) \<times> ('p, 'q) exit_act list) \<times> 'w"
where
  "start_service pe env cfg agents w =
     (if \<not> Enabled (cf_Async cfg) then ((Inr (None, None, []), []), w)
      else case newJobService (pe_getenv pe) (pe_open_store pe) (pe_open_queue pe) (pe_store pe) (pe_queue pe) cfg agents of
        (Inl e, closed) \<Rightarrow> ((Inl e, map CloseStore closed), w)
      | (Inr (sv, backend), closed) \<Rightarrow>
          (case startWorkers env (pe_hostname pe) (pe_pid pe) (cf_Async cfg) w of
             ((Some e, threads), w1) \<Rightarrow> ((Inl e, closeBackend backend), w1)
           | ((None, threads), w1) \<Rightarrow> ((Inr (Some sv, Some backend, threads), []), w1)))"

text \<open>\<open>run\<close> up to the listener: an error with what was done on the way out, or a process that serves.\<close>

definition run_node ::
  "('m, 'p, 'q, 'w) process_env \<Rightarrow> ('m eino_agent, 'w) env \<Rightarrow> string \<Rightarrow> 'w
   \<Rightarrow> ((gerror + ('m eino_agent, 'p, 'q, 'w) node) \<times> ('p, 'q) exit_act list) \<times> 'w" where
  "run_node pe env path w =
     (case Load (en_range env) (pe_getenv pe) (pe_read_file pe) (pe_unmarshal pe) path of
        Inl e \<Rightarrow> ((Inl e, []), w)
      | Inr cfg \<Rightarrow>
          (case buildAgents (en_range env) (eino_New (pe_getenv pe) (pe_NewChatModel pe)) (cf_Agents cfg) of
             Inl e \<Rightarrow> ((Inl e, [StopSignals]), w)
           | Inr agents \<Rightarrow>
               (case start_service pe env cfg (Resolve agents) w of
                  ((Inl e, acts), w1) \<Rightarrow> ((Inl e, acts @ [StopSignals]), w1)
                | ((Inr (service, backend, threads), acts), w1) \<Rightarrow>
                    ((Inr \<lparr>nd_Address = Address (cf_Server cfg), nd_Agents = Resolve agents,
                           nd_Options = workflow_options (cf_Workflow cfg), nd_Service = service,
                           nd_Backend = backend, nd_Goroutines = threads\<rparr>, acts), w1))))"

text \<open>What the listener sends on \<open>serverErr\<close> for the answer of \<open>ListenAndServe\<close>.\<close>

definition ErrServerClosed :: gerror where
  "ErrServerClosed = Sentinel ''http: Server closed''"

definition listener_error :: "gerror option \<Rightarrow> gerror option" where
  "listener_error answer =
     (case answer of
        Some e \<Rightarrow> if \<not> errors_is e ErrServerClosed then Some (Wrapf (''http server: '' @ error_text e) e) else None
      | None \<Rightarrow> None)"

definition shutdownGrace :: int where
  "shutdownGrace = 15 * second"

text \<open>
  What ends the \<open>select\<close> of \<open>run\<close>: the listener returned, or a signal cancelled the context;
  then \<open>server.Shutdown\<close> would need \<open>closing\<close> and the goroutines \<open>draining\<close> nanoseconds from the
  signal on, if nothing bounded them. Both are bounded by one context, so the wait for the
  workers gets what \<open>Shutdown\<close> left of the grace period.
\<close>

datatype wakeup = ListenerReturned "gerror option" | Signalled int int

definition shutdown_time :: "int \<Rightarrow> int" where
  "shutdown_time closing = min closing shutdownGrace"

definition drain_time :: "int \<Rightarrow> int \<Rightarrow> int" where
  "drain_time closing draining =
     (let spent = shutdown_time closing
      in if draining \<le> spent then 0 else min draining shutdownGrace - spent)"

definition run_exit :: "('a, 'p, 'q, 'w) node \<Rightarrow> wakeup \<Rightarrow> gerror option \<times> ('p, 'q) exit_act list" where
  "run_exit nd ending =
     (let deferred = (case nd_Backend nd of None \<Rightarrow> [] | Some b \<Rightarrow> closeBackend b) @ [StopSignals]
      in case ending of
           ListenerReturned answer \<Rightarrow> (listener_error answer, deferred)
         | Signalled closing draining \<Rightarrow>
             (None, [ShutdownServer (shutdown_time closing), AwaitWorkers (drain_time closing draining)] @ deferred))"

definition run ::
  "('m, 'p, 'q, 'w) process_env \<Rightarrow> ('m eino_agent, 'w) env \<Rightarrow> string \<Rightarrow> wakeup \<Rightarrow> 'w
   \<Rightarrow> (gerror option \<times> ('p, 'q) exit_act list) \<times> 'w" where
  "run pe env path ending w =
     (case run_node pe env path w of
        ((Inl e, acts), w1) \<Rightarrow> ((Some e, acts), w1)
      | ((Inr nd, acts), w1) \<Rightarrow>
          (case run_exit nd ending of (err, acts') \<Rightarrow> ((err, acts @ acts'), w1)))"

text \<open>\<open>main\<close>: the exit status of the process.\<close>

definition main :: "gerror option \<Rightarrow> int" where
  "main err = (case err of None \<Rightarrow> 0 | Some e \<Rightarrow> 1)"

end
