(* ===== verification/Node_Properties.thy ===== *)
theory Node_Properties
  imports Node Http_Requests Jobs_Properties
begin

text \<open>
  What a process that serves is made of, and the shape of the results its agents produce.
\<close>

section \<open>Results\<close>

definition result_wf :: "options \<Rightarrow> (string \<Rightarrow> bool) \<Rightarrow> step_result \<Rightarrow> bool" where
  "result_wf opts P r \<longleftrightarrow> 0 \<le> result_Attempts r \<and> result_Attempts r \<le> MaxRetries opts \<and>
     (result_Status r = Succeeded \<and> P (result_Output r) \<and> result_Error r = [] \<or>
      result_Status r = Failed \<and> result_Output r = [] \<or>
      result_Status r = Skipped \<and> result_Output r = [] \<and> result_Error r = ''dependency failed'' \<and>
        result_Attempts r = 0)"

definition answers :: "('ag, 'w) runtime \<Rightarrow> (string \<Rightarrow> bool) \<Rightarrow> bool" where
  "answers rt P \<longleftrightarrow> (\<forall>ag p w out w'. rt_call rt ag p w = (Inr out, w') \<longrightarrow> P out)"

lemma runStep_wf:
  assumes "answers rt P" and "runStep rt opts ag p r w = (r', w')"
    and "0 \<le> result_Attempts r" "result_Attempts r \<le> MaxRetries opts" "result_Output r = []"
  shows "result_wf opts P r'"
  using assms(2-)
proof (induction rule: runStep_induct)
  case (success r w w' out)
  from assms(1) success(1) have "P out" unfolding answers_def by blast
  with success show ?case by (simp add: result_wf_def)
qed (auto simp: result_wf_def)

lemma settled_wf:
  assumes "answers rt P" and "settled rt opts R s r" and "Resume opts = []" and "0 \<le> MaxRetries opts"
  shows "result_wf opts P r"
proof (cases "dependenciesSucceeded s R")
  case True
  with assms(2,3) obtain R0 v where r: "r = fst (step_outcome rt opts s (renderPrompt (step_Prompt s) R0) v)"
    by (auto simp: settled_def resumed_def)
  show ?thesis
  proof (cases "renderPrompt (step_Prompt s) R0")
    case (Inl e)
    with r assms(4) show ?thesis by (simp add: step_outcome_def result_wf_def)
  next
    case (Inr prompt)
    obtain r' w' where "runStep rt opts (step_Agent s) prompt (started (step_ID s)) v = (r', w')" by fastforce
    from runStep_wf [OF assms(1) this] this Inr r assms(4) show ?thesis
      by (simp add: step_outcome_def started_def)
  qed
next
  case False
  with assms(2-4) show ?thesis by (auto simp: settled_def resumed_def skipped_def result_wf_def)
qed

lemma eino_answers:
  assumes "en_run env = (\<lambda>a. eino_Run Generate (Some a))"
  shows "answers (request_runtime env) (\<lambda>out. TrimSpace out \<noteq> [])"
  unfolding answers_def
proof (intro allI impI)
  fix ag p w out w'
  assume "rt_call (request_runtime env) ag p w = (Inr out, w')"
  with assms have "\<exists>a. eino_Run Generate (Some a) p w = (Inr out, w')"
    by (auto simp: request_runtime_def split: option.splits)
  then show "TrimSpace out \<noteq> []" by (auto dest: eino_Run_output)
qed


definition echo_model :: "unit \<Rightarrow> message list \<Rightarrow> ('w, string option) op" where
  "echo_model m messages w =
     (Inr (case last messages of UserMessage p \<Rightarrow> (if p = ''x'' then None else Some p) | SystemMessage s \<Rightarrow> None), w)"

definition echo_agent :: "unit eino_agent" where
  "echo_agent = \<lparr>ea_model = Some (), ea_instruction = ''be brief''\<rparr>"

definition echo_env :: "(unit eino_agent, 'w) env" where
  "echo_env = \<lparr>en_run = (\<lambda>a. eino_Run echo_model (Some a)), en_timer = (\<lambda>d w. (True, w)),
     en_done = (\<lambda>w. None), en_beats = (\<lambda>w. (0, w)), en_now = (\<lambda>w. (7, w)),
     en_rand = (\<lambda>w. (Inr (replicate 16 CHR ''A''), w)), en_range = (\<lambda>ks. ks), en_arrival = (\<lambda>ks. ks)\<rparr>"

definition echo_steps :: "unit eino_agent step list" where
  "echo_steps =
     [\<lparr>step_ID = ''a'', step_Agent = Some echo_agent, step_Prompt = ''hi'', step_DependsOn = []\<rparr>,
      \<lparr>step_ID = ''b'', step_Agent = Some echo_agent, step_Prompt = ''x'', step_DependsOn = []\<rparr>]"

definition echo_options :: options where
  "echo_options = \<lparr>MaxRetries = 1, RetryDelay = 0, Resume = []\<rparr>"


section \<open>Leaving the process\<close>

text \<open>The connections a start of the process opens: none before the agents are built.\<close>

definition opened :: "('m, 'p, 'q, 'w) process_env \<Rightarrow> ('m eino_agent, 'w) env \<Rightarrow> string \<Rightarrow> 'p option \<times> 'q option" where
  "opened pe env path =
     (case Load (en_range env) (pe_getenv pe) (pe_read_file pe) (pe_unmarshal pe) path of
        Inl e \<Rightarrow> (None, None)
      | Inr cfg \<Rightarrow>
          (case buildAgents (en_range env) (eino_New (pe_getenv pe) (pe_NewChatModel pe)) (cf_Agents cfg) of
             Inl e \<Rightarrow> (None, None)
           | Inr agents \<Rightarrow>
               if \<not> Enabled (cf_Async cfg) then (None, None)
               else case pe_open_store pe (DatabaseURL (pe_getenv pe) (cf_Async cfg)) of
                 Inl e \<Rightarrow> (None, None)
               | Inr pool \<Rightarrow>
                   (case pe_open_queue pe (RedisURL (pe_getenv pe) (cf_Async cfg)) (ac_QueueName (cf_Async cfg)) of
                      Inl e \<Rightarrow> (Some pool, None)
                    | Inr client \<Rightarrow> (Some pool, Some client))))"

definition closes :: "'p option \<times> 'q option \<Rightarrow> ('p, 'q) exit_act list" where
  "closes b = (case snd b of None \<Rightarrow> [] | Some client \<Rightarrow> [CloseQueue client]) @
     (case fst b of None \<Rightarrow> [] | Some pool \<Rightarrow> [CloseStore pool])"

lemma drain_within_grace: "shutdown_time closing + drain_time closing draining \<le> shutdownGrace"
  by (simp add: drain_time_def shutdown_time_def Let_def)

lemma run_node_acts:
  assumes "run_node pe env path w = ((r, acts), w')"
  shows "case r of
      Inl e \<Rightarrow> \<exists>stop. acts = closes (opened pe env path) @ stop \<and> stop \<in> {[], [StopSignals]}
    | Inr nd \<Rightarrow> acts = [] \<and>
        closes (opened pe env path) = (case nd_Backend nd of None \<Rightarrow> [] | Some b \<Rightarrow> closeBackend b)"
  using assms
  by (auto simp: run_node_def start_service_def newJobService_def opened_def closes_def closeBackend_def
      split: sum.splits prod.splits if_splits option.splits)


section \<open>Startup\<close>

lemma build_each_dom: "build_each new defs agents = Inr r \<Longrightarrow> dom r = dom agents \<union> fst ` set defs"
proof (induction new defs agents rule: build_each.induct)
  case (2 new name d rest agents)
  then obtain a where a: "new (eino_settings name d) = Inr a" by (auto split: sum.splits)
  with "2.prems" have "build_each new rest (agents(name \<mapsto> a)) = Inr r" by simp
  from "2.IH" [OF a, folded fun_upd_def, OF this] have "dom r = dom (agents(name \<mapsto> a)) \<union> fst ` set rest"
    unfolding fun_upd_def .
  then show ?case by simp
qed simp

lemma build_each_agent:
  "build_each new defs agents = Inr r \<Longrightarrow> r k = Some a \<Longrightarrow>
   agents k = Some a \<or> (\<exists>d. new (eino_settings k d) = Inr a)"
proof (induction new defs agents rule: build_each.induct)
  case (2 new name d rest agents)
  then obtain a' where a': "new (eino_settings name d) = Inr a'" by (auto split: sum.splits)
  with "2.prems" have "build_each new rest (agents(name \<mapsto> a')) = Inr r" by simp
  from "2.IH" [OF a', folded fun_upd_def, OF this "2.prems"(2)] have "(agents(name \<mapsto> a')) k = Some a \<or> (\<exists>d. new (eino_settings k d) = Inr a)" .
  with a' show ?case by (cases "k = name") auto
qed simp

lemma in_order_names: "fst ` set (in_order ord m) = fst ` set m"
  by (simp add: in_order_def image_image)

lemma start_each_spec:
  "start_each env host pid n threads w = ((None, threads'), w') \<Longrightarrow>
   \<exists>ids. threads' = threads @ map WorkerLoop ids \<and> length ids = n"
proof (induction env host pid n threads w rule: start_each.induct)
  case (2 env host pid n threads w)
  then obtain worker w1 where id: "NewWorkerID env host pid w = (Inr worker, w1)"
    by (auto split: prod.splits sum.splits)
  with "2.prems" have "start_each env host pid n (threads @ [WorkerLoop worker]) w1 = ((None, threads'), w')" by simp
  from "2.IH" [OF id [symmetric] refl this] id obtain ids where
    "threads' = (threads @ [WorkerLoop worker]) @ map WorkerLoop ids" "length ids = n" by blast
  then show ?case by (intro exI [of _ "worker # ids"]) simp
qed simp


definition demo_config :: app_config where
  "demo_config = (plain_config 500)\<lparr>cf_Async := plain_async\<lparr>Enabled := True\<rparr>,
     cf_Agents := [(''a'', \<lparr>ModelID = ''m'', BaseURL = [], TokenEnv = [], Instruction = ''be brief'', MaxTokens = 0,
        TimeoutMS = 0\<rparr>)]\<rparr>"

definition demo_process :: "(unit, unit, unit, unit backend) process_env" where
  "demo_process = \<lparr>pe_getenv = (\<lambda>k. ''secret''), pe_read_file = (\<lambda>_. Inr []), pe_unmarshal = (\<lambda>_. Inr demo_config),
     pe_NewChatModel = (\<lambda>_. Inr ()), pe_open_store = (\<lambda>_. Inr ()), pe_open_queue = (\<lambda>_ _. Inr ()),
     pe_store = (\<lambda>_. pg_store), pe_queue = (\<lambda>_. redis_queue), pe_hostname = ''h'', pe_pid = 7\<rparr>"


end
